theory Spec2Isabelle
  imports
    Complex_Main
    "HOL-Library.Word"
    "HOL-Library.Multiset"
    "HOL-Library.Char_ord"
    "HOL-Library.List_Lexorder"
begin

section \<open>The server list command of natscli (cli/server\_list\_command.go)\<close>

text \<open>
  The command \<open>nats server ls\<close> sends one request to \<open>$SYS.REQ.SERVER.PING\<close>, decodes every
  reply into a \<open>server.ServerStatsMsg\<close>, adds it to running totals and to a per-cluster
  summary, sorts the replies and prints a table. This theory embeds the function
  \<open>SrvLsCmd.list\<close> with the data it works on.
\<close>

subsection \<open>Go's scalar types\<close>

text \<open>
  Go's \<open>int\<close> has the width of the platform; the model fixes the 64 bits of amd64 and arm64.
  \<open>int\<close>, \<open>int64\<close> and \<open>time.Duration\<close> are read in two's complement (\<open>sint\<close>, \<open><s\<close>),
  \<open>uint32\<close> and \<open>uint64\<close> unsigned. Addition wraps around, as Go's does.

  \<open>encoding/json\<close> refuses a number that does not fit a \<open>float64\<close> and has no syntax for NaN or
  an infinity, so the CPU percentage of a decoded reply is a finite \<open>float64\<close>: a rational
  number, and Go's \<open><\<close> on finite values is the order of the rationals.

  A \<open>time.Time\<close> decoded from JSON carries no monotonic clock reading; it is modelled as the
  instant it denotes, in nanoseconds since the Unix epoch.
\<close>

type_synonym go_int = "64 word"
type_synonym int64 = "64 word"
type_synonym uint64 = "64 word"
type_synonym uint32 = "32 word"
type_synonym float64 = rat
type_synonym Duration = "64 word"
type_synonym Time = int

text \<open>\<open>Time.UnixNano\<close> computes seconds times \<open>1e9\<close> plus nanoseconds in \<open>int64\<close>: it wraps.\<close>

definition UnixNano :: "Time \<Rightarrow> int64" where
  "UnixNano t = word_of_int t"

text \<open>\<open>Time.Sub\<close> saturates at the least and the greatest \<open>Duration\<close>.\<close>

definition Time_Sub :: "Time \<Rightarrow> Time \<Rightarrow> Duration" where
  "Time_Sub t u =
     (let d = t - u
      in if d < - (2 ^ 63) then word_of_int (- (2 ^ 63))
         else if 2 ^ 63 - 1 < d then word_of_int (2 ^ 63 - 1)
         else word_of_int d)"

subsection \<open>The status message of nats-server\<close>

text \<open>
  Of \<open>server.ServerInfo\<close>, \<open>server.ServerStats\<close>, \<open>server.RouteStat\<close> and
  \<open>server.GatewayStat\<close> the records keep the fields that \<open>list\<close> reads. The field
  \<open>Domain\<close> is named \<open>Domain_f\<close> here.

  \<open>Routes\<close> and \<open>Gateways\<close> are slices of pointers (\<open>[]*RouteStat\<close>,
  \<open>[]*GatewayStat\<close>): \<open>encoding/json\<close> decodes a \<open>null\<close> in the array to a nil pointer,
  which is \<open>None\<close> here.
\<close>

record RouteStat =
  ID :: uint64

record GatewayStat =
  NumInbound :: go_int

record ServerInfo =
  Name :: string
  Host :: string
  Cluster :: string
  Domain_f :: string
  Version :: string
  JetStream :: bool
  Time :: Time

record ServerStats =
  Start :: Time
  Mem :: int64
  Cores :: go_int
  CPU :: float64
  Connections :: go_int
  NumSubs :: uint32
  SlowConsumers :: int64
  Routes :: "RouteStat option list"
  Gateways :: "GatewayStat option list"

record ServerStatsMsg =
  Server :: ServerInfo
  Stats :: ServerStats

subsection \<open>The command and its working data\<close>

text \<open>
  \<open>SrvLsCmd.sort\<close> and \<open>SrvLsCmd.compact\<close> are named \<open>sort_flag\<close> and \<open>compact_flag\<close>.
\<close>

record SrvLsCmd =
  expect :: uint32
  json :: bool
  sort_flag :: string
  reverse :: bool
  compact_flag :: bool

record srvListCluster =
  name :: string
  nodes :: "string list"
  gwOut :: go_int
  gwIn :: go_int
  conns :: go_int

text \<open>The local type \<open>result\<close> of \<open>list\<close>: the message and the time it took to arrive.\<close>

record result = ServerStatsMsg +
  rtt :: Duration

subsection \<open>Package sort of the Go library\<close>

text \<open>
  \<open>sort.Slice\<close> belongs to the Go library, not to natscli. Since Go 1.19 it is
  \<open>pdqsort_func (lessSwap {less, swap}) 0 length limit\<close>, whose loop begins
  \<^verbatim>\<open>
    length := b - a
    if length <= maxInsertion {        // maxInsertion = 12
        insertionSort_func(data, a, b)
        return
    }
  \<close>
  so a slice of at most 12 elements is sorted by insertion sort alone:
  \<^verbatim>\<open>
    func insertionSort_func(data lessSwap, a, b int) {
        for i := a + 1; i < b; i++ {
            for j := i; j > a && data.Less(j, j-1); j-- {
                data.Swap(j, j-1)
            }
        }
    }
  \<close>
  The closure that \<open>list\<close> passes reads \<open>results[i]\<close> and \<open>results[j]\<close> at the moment of the
  call, so \<open>data.Less j (j - 1)\<close> compares the elements that stand at \<open>j\<close> and \<open>j - 1\<close> then.
  What \<open>pdqsort_func\<close> does with a longer slice (pivot selection, partitioning, the
  fall back to heap sort) is not modelled: it is the parameter \<open>pdq\<close> of \<open>sort_Slice\<close>.
\<close>

definition Swap :: "'a list \<Rightarrow> nat \<Rightarrow> nat \<Rightarrow> 'a list" where
  "Swap xs i j = xs[i := xs ! j, j := xs ! i]"

fun insertionSort_inner :: "('a \<Rightarrow> 'a \<Rightarrow> bool) \<Rightarrow> nat \<Rightarrow> nat \<Rightarrow> 'a list \<Rightarrow> 'a list" where
  "insertionSort_inner lessf a 0 xs = xs"
| "insertionSort_inner lessf a (Suc j) xs =
     (if a < Suc j \<and> lessf (xs ! Suc j) (xs ! j)
      then insertionSort_inner lessf a j (Swap xs (Suc j) j)
      else xs)"

definition insertionSort_func :: "('a \<Rightarrow> 'a \<Rightarrow> bool) \<Rightarrow> nat \<Rightarrow> nat \<Rightarrow> 'a list \<Rightarrow> 'a list" where
  "insertionSort_func lessf a b xs =
     foldl (\<lambda>ys i. insertionSort_inner lessf a i ys) xs [a + 1 ..< b]"

definition sort_Slice ::
  "(('a \<Rightarrow> 'a \<Rightarrow> bool) \<Rightarrow> 'a list \<Rightarrow> 'a list) \<Rightarrow> ('a \<Rightarrow> 'a \<Rightarrow> bool) \<Rightarrow> 'a list \<Rightarrow> 'a list" where
  "sort_Slice pdq lessf xs =
     (if length xs \<le> 12 then insertionSort_func lessf 0 (length xs) xs else pdq lessf xs)"

text \<open>
  What package sort asks of \<open>Less\<close> (the documentation of \<open>sort.Interface\<close>): "if both
  Less(i, j) and Less(j, k) are true, then Less(i, k) must be true as well; if both
  Less(i, j) and Less(j, k) are false, then Less(i, k) must be false as well".
\<close>

definition transitive_ordering :: "('a \<Rightarrow> 'a \<Rightarrow> bool) \<Rightarrow> bool" where
  "transitive_ordering lessf \<longleftrightarrow>
     (\<forall>x y z. lessf x y \<and> lessf y z \<longrightarrow> lessf x z) \<and>
     (\<forall>x y z. \<not> lessf x y \<and> \<not> lessf y z \<longrightarrow> \<not> lessf x z)"

text \<open>
  A slice is in the order of \<open>lessf\<close> when of two elements the earlier one sorts before the
  later one, or the later one does not sort before the earlier one. For a strict comparison
  this is "no later element is less than an earlier one"; for a reflexive one it is "every
  earlier element is less than or equal to every later one".
\<close>

definition in_order :: "('a \<Rightarrow> 'a \<Rightarrow> bool) \<Rightarrow> 'a list \<Rightarrow> bool" where
  "in_order lessf xs = sorted_wrt (\<lambda>x y. lessf x y \<or> \<not> lessf y x) xs"

text \<open>
  The assumption about the part of \<open>pdqsort_func\<close> that is not modelled: given a transitive
  ordering, it permutes a slice of more than 12 elements into the order of \<open>lessf\<close>.
\<close>

definition sorts_long_slices :: "(('a \<Rightarrow> 'a \<Rightarrow> bool) \<Rightarrow> 'a list \<Rightarrow> 'a list) \<Rightarrow> bool" where
  "sorts_long_slices pdq \<longleftrightarrow>
     (\<forall>lessf xs. transitive_ordering lessf \<and> 12 < length xs \<longrightarrow>
        mset (pdq lessf xs) = mset xs \<and> in_order lessf (pdq lessf xs))"

subsection \<open>Ranking: lines 134 to 169 of \<open>list\<close>\<close>

text \<open>The closure \<open>rev\<close>, named \<open>rev_fn\<close> here.\<close>

definition rev_fn :: "SrvLsCmd \<Rightarrow> bool \<Rightarrow> bool" where
  "rev_fn c v = (if \<not> reverse c then \<not> v else v)"

text \<open>
  The comparison closure handed to \<open>sort.Slice\<close>, applied to the elements at \<open>i\<close> and \<open>j\<close>.
  \<open>len\<close> of a slice is never negative, so lengths are compared as natural numbers. Go
  compares strings byte by byte, as the lexicographic order on lists of characters does.
\<close>

definition less_fn :: "SrvLsCmd \<Rightarrow> result \<Rightarrow> result \<Rightarrow> bool" where
  "less_fn c ri rj =
     (let stati = Stats ri; statj = Stats rj
      in if sort_flag c = ''name'' then Name (Server ri) < Name (Server rj)
         else if sort_flag c = ''conns'' \<or> sort_flag c = ''conn''
           then rev_fn c (Connections stati <s Connections statj)
         else if sort_flag c = ''subs'' \<or> sort_flag c = ''sub''
           then rev_fn c (NumSubs stati < NumSubs statj)
         else if sort_flag c = ''routes'' \<or> sort_flag c = ''route''
           then rev_fn c (length (Routes stati) < length (Routes statj))
         else if sort_flag c = ''gws'' \<or> sort_flag c = ''gw''
           then rev_fn c (length (Gateways stati) < length (Gateways statj))
         else if sort_flag c = ''mem'' then rev_fn c (Mem stati <s Mem statj)
         else if sort_flag c = ''cpu'' then rev_fn c (CPU stati < CPU statj)
         else if sort_flag c = ''slow''
           then rev_fn c (SlowConsumers stati <s SlowConsumers statj)
         else if sort_flag c = ''uptime''
           then rev_fn c (UnixNano (Start statj) <s UnixNano (Start stati))
         else rev_fn c (rtt rj <s rtt ri))"

definition rank ::
  "((result \<Rightarrow> result \<Rightarrow> bool) \<Rightarrow> result list \<Rightarrow> result list) \<Rightarrow> SrvLsCmd \<Rightarrow> result list \<Rightarrow> result list" where
  "rank pdq c results = sort_Slice pdq (less_fn c) results"

subsection \<open>Aggregation: the callback handed to \<open>doReqAsync\<close>\<close>

text \<open>
  The variables that \<open>list\<close> declares and its callback updates. \<open>start\<close> is the moment of
  the request and \<open>mu\<close> serialises the callbacks: a run is the sequence of the callbacks in
  the order in which they take the lock.
\<close>

record accum =
  results :: "result list"
  clusters :: "string \<rightharpoonup> srvListCluster"
  servers :: go_int
  connections :: go_int
  memory :: int64
  slow :: int64
  subs :: uint32
  js :: go_int

definition init :: accum where
  "init = \<lparr>results = [], clusters = Map.empty, servers = 0, connections = 0,
            memory = 0, slow = 0, subs = 0, js = 0\<rparr>"

text \<open>
  The panics of the Go runtime that \<open>list\<close> can run into: reading a field through a nil
  pointer, and an index out of range.
\<close>

datatype runtime_error = NilDereference | IndexOutOfRange

text \<open>
  Lines 114 to 116: the loop over the gateways of a message. \<open>g.NumInbound\<close> is read with
  no test of \<open>g\<close>, so the loop panics at the first nil entry.
\<close>

fun gwIn_loop :: "go_int \<Rightarrow> GatewayStat option list \<Rightarrow> runtime_error + go_int" where
  "gwIn_loop n [] = Inr n"
| "gwIn_loop n (None # gs) = Inl NilDereference"
| "gwIn_loop n (Some g # gs) = gwIn_loop (n + NumInbound g) gs"

text \<open>
  Lines 92 to 122: what the callback does with a decoded message under the lock.
  \<open>since\<close> is \<open>time.Since(start)\<close> at that moment. A panic of the loop ends the process
  before the result is appended.
\<close>

definition onRecord :: "accum \<Rightarrow> ServerStatsMsg \<Rightarrow> Duration \<Rightarrow> runtime_error + accum" where
  "onRecord st ssm since =
     (let st1 = st\<lparr>servers := servers st + 1,
                    connections := connections st + Connections (Stats ssm),
                    memory := memory st + Mem (Stats ssm),
                    slow := slow st + SlowConsumers (Stats ssm),
                    subs := subs st + NumSubs (Stats ssm),
                    js := (if JetStream (Server ssm) then js st + 1 else js st)\<rparr>;
          cluster = Cluster (Server ssm);
          new = \<lparr>Server = Server ssm, Stats = Stats ssm, rtt = since\<rparr>
      in if cluster \<noteq> []
         then
           let cl0 = (case clusters st1 cluster of
                        None \<Rightarrow> \<lparr>name = cluster, nodes = [], gwOut = 0, gwIn = 0, conns = 0\<rparr>
                      | Some cl \<Rightarrow> cl);
               cl1 = cl0\<lparr>conns := conns cl0 + Connections (Stats ssm)\<rparr>;
               cl2 = cl1\<lparr>nodes := nodes cl1 @ [Name (Server ssm)]\<rparr>;
               cl3 = cl2\<lparr>gwOut := gwOut cl2 + of_nat (length (Gateways (Stats ssm)))\<rparr>
           in (case gwIn_loop (gwIn cl3) (Gateways (Stats ssm)) of
                 Inl panic \<Rightarrow> Inl panic
               | Inr n \<Rightarrow>
                   Inr (st1\<lparr>clusters := (clusters st1)(cluster \<mapsto> cl3\<lparr>gwIn := n\<rparr>),
                            results := results st1 @ [new]\<rparr>))
         else Inr (st1\<lparr>results := results st1 @ [new]\<rparr>))"

text \<open>
  A reply, as the callback meets it: what \<open>json.Unmarshal\<close> makes of its payload (the error
  text, or the message) and the time since \<open>start\<close>.
\<close>

type_synonym reply = "(string + ServerStatsMsg) \<times> Duration"

text \<open>
  How the process can end inside the callback: the line written by \<open>log.Printf\<close> before
  \<open>os.Exit(1)\<close>, or a panic.
\<close>

datatype fatal = LogExit string | RuntimePanic runtime_error

text \<open>The callback: lines 85 to 122.\<close>

definition callback :: "accum \<Rightarrow> reply \<Rightarrow> fatal + accum" where
  "callback st r =
     (case fst r of
        Inl err \<Rightarrow> Inl (LogExit (''Could not decode response: '' @ err))
      | Inr ssm \<Rightarrow>
          (case onRecord st ssm (snd r) of
             Inl panic \<Rightarrow> Inl (RuntimePanic panic)
           | Inr st' \<Rightarrow> Inr st'))"

text \<open>
  The callbacks of a run, one per reply and one after the other; the run is over when a
  callback ends the process.
\<close>

fun callbacks :: "(accum \<Rightarrow> reply \<Rightarrow> fatal + accum) \<Rightarrow> reply list \<Rightarrow> accum \<Rightarrow> fatal + accum" where
  "callbacks cb [] st = Inr st"
| "callbacks cb (r # rs) st =
     (case cb st r of Inl stop \<Rightarrow> Inl stop | Inr st' \<Rightarrow> callbacks cb rs st')"

text \<open>
  Modelled from the spec: \<open>doReqAsync\<close> is defined in another file of the package. The
  spec (4.1): one request is sent and the callback runs once per reply; "if expectedCount > 0,
  stop after that many replies arrive OR timeout elapses, whichever first; if
  expectedCount == 0, always wait the full timeout". \<open>replies\<close> are the replies that arrive
  within the timeout, in the order of arrival; \<open>list\<close> ignores the error that
  \<open>doReqAsync\<close> returns.
\<close>

definition doReqAsync ::
  "nat \<Rightarrow> (accum \<Rightarrow> reply \<Rightarrow> fatal + accum) \<Rightarrow> reply list \<Rightarrow> accum \<Rightarrow> fatal + accum" where
  "doReqAsync waitFor cb replies st =
     callbacks cb (if waitFor = 0 then replies else take waitFor replies) st"

subsection \<open>The report\<close>

text \<open>
  A cell is a value handed to \<open>AddRow\<close>: a string, an \<open>int\<close>, an \<open>int64\<close>. For a
  string made by a formatting function outside this file (\<open>humanize.Comma\<close>,
  \<open>humanize.IBytes\<close>, \<open>fmt.Sprintf("%.0f", _)\<close>, \<open>humanizeDuration\<close>) and for a duration
  rounded by \<open>Round(time.Millisecond)\<close> the cell records the call and its argument.
\<close>

datatype cell =
    Text string
  | IntCell go_int
  | Int64Cell int64
  | Comma int64
  | IBytes uint64
  | Sprintf_0f float64
  | humanizeDuration Duration
  | Round_Millisecond Duration

text \<open>
  Modelled from the spec: the table writer (\<open>newTableWriter\<close>, \<open>AddHeaders\<close>, \<open>AddRow\<close>,
  \<open>AddSeparator\<close>, \<open>Render\<close>) is defined in another file of the package. The spec (6) has
  the renderer handed "fully computed rows and totals" and expects "no further computation
  from it": a table is its title, its headers and the rows and separators it was handed, in
  that order.
\<close>

datatype table_row = Row "cell list" | Separator

record table =
  title :: string
  headers :: "string list"
  rows :: "table_row list"

text \<open>Modelled from the spec: \<open>newTableWriter\<close>, a table with a title and nothing else.\<close>

definition newTableWriter :: "string \<Rightarrow> table" where
  "newTableWriter t = \<lparr>title = t, headers = [], rows = []\<rparr>"

text \<open>Modelled from the spec: \<open>AddHeaders\<close> sets the headers.\<close>

definition AddHeaders :: "table \<Rightarrow> string list \<Rightarrow> table" where
  "AddHeaders t hs = t\<lparr>headers := hs\<rparr>"

text \<open>Modelled from the spec: \<open>AddRow\<close> appends a row of cells.\<close>

definition AddRow :: "table \<Rightarrow> cell list \<Rightarrow> table" where
  "AddRow t cs = t\<lparr>rows := rows t @ [Row cs]\<rparr>"

text \<open>Modelled from the spec: \<open>AddSeparator\<close> appends a separator.\<close>

definition AddSeparator :: "table \<Rightarrow> table" where
  "AddSeparator t = t\<lparr>rows := rows t @ [Separator]\<rparr>"

text \<open>Lines 186 to 213: the row of one server, given its compacted name and host.\<close>

definition server_row :: "string \<Rightarrow> string \<Rightarrow> result \<Rightarrow> cell list" where
  "server_row cName cHost ssm =
     (let cluster = Cluster (Server ssm);
          jsEnabled =
            (if JetStream (Server ssm)
             then (if Domain_f (Server ssm) \<noteq> [] then Domain_f (Server ssm) else ''yes'')
             else ''no'')
      in [Text cName,
          Text cluster,
          Text cHost,
          Text (Version (Server ssm)),
          Text jsEnabled,
          Comma (Connections (Stats ssm)),
          Comma (ucast (NumSubs (Stats ssm))),
          IntCell (of_nat (length (Routes (Stats ssm)))),
          IntCell (of_nat (length (Gateways (Stats ssm)))),
          IBytes (Mem (Stats ssm)),
          Sprintf_0f (CPU (Stats ssm)),
          IntCell (Cores (Stats ssm)),
          Int64Cell (SlowConsumers (Stats ssm)),
          humanizeDuration (Time_Sub (Time (Server ssm)) (Start (Stats ssm))),
          Round_Millisecond (rtt ssm)])"

text \<open>Lines 216 to 230: the row of totals. An empty string is a blank cell.\<close>

definition totals_row :: "accum \<Rightarrow> cell list" where
  "totals_row st =
     [Text [],
      IntCell (of_nat (card (dom (clusters st)))),
      IntCell (servers st),
      Text [],
      IntCell (js st),
      Comma (connections st),
      Comma (ucast (subs st)),
      Text [], Text [],
      IBytes (memory st),
      Text [],
      Text [],
      Comma (slow st),
      Text [],
      Text []]"

subsection \<open>The command: \<open>SrvLsCmd.list\<close>\<close>

text \<open>
  How a run of \<open>list\<close> ends: the process exits in the callback, \<open>list\<close> returns an error,
  \<open>printJSON\<close> prints the results, the table is printed (and the clusters are handed to
  \<open>showClusters\<close> when there are any), or the process panics.
\<close>

datatype outcome =
    Exit string
  | Error string
  | JSON "result list"
  | Tables table "(string \<rightharpoonup> srvListCluster) option"
  | Panic runtime_error

text \<open>
  \<open>compactStrings\<close> is defined in another file of the package and is a parameter here, as
  is \<open>pdq\<close>. \<open>newNatsConn\<close> is the error of the connection attempt, if it fails.
  \<open>cNames[i]\<close> and \<open>cHosts[i]\<close> panic when \<open>compactStrings\<close> returned fewer strings than
  it was given; nothing has been printed by then.
\<close>

definition list ::
  "(string list \<Rightarrow> string list) \<Rightarrow> ((result \<Rightarrow> result \<Rightarrow> bool) \<Rightarrow> result list \<Rightarrow> result list) \<Rightarrow>
     SrvLsCmd \<Rightarrow> string option \<Rightarrow> reply list \<Rightarrow> outcome" where
  "list compactStrings pdq c newNatsConn replies =
     (case newNatsConn of
        Some err \<Rightarrow> Error err
      | None \<Rightarrow>
         (case doReqAsync (unat (expect c)) callback replies init of
            Inl (LogExit line) \<Rightarrow> Exit line
          | Inl (RuntimePanic panic) \<Rightarrow> Panic panic
          | Inr st \<Rightarrow>
             if length (results st) = 0
             then Error ''no results received, ensure the account used has system privileges and appropriate permissions''
             else if json c then JSON (results st)
             else
               let ranked = rank pdq c (results st);
                   table0 = AddHeaders (newTableWriter ''Server Overview'')
                     [''Name'', ''Cluster'', ''Host'', ''Version'', ''JS'', ''Conns'', ''Subs'',
                      ''Routes'', ''GWs'', ''Mem'', ''CPU %'', ''Cores'', ''Slow'', ''Uptime'', ''RTT''];
                   names = map (\<lambda>ssm. Name (Server ssm)) ranked;
                   hosts = map (\<lambda>ssm. Host (Server ssm)) ranked;
                   cNames = (if compact_flag c then compactStrings names else names);
                   cHosts = (if compact_flag c then compactStrings hosts else hosts)
               in if length cNames < length ranked \<or> length cHosts < length ranked
                  then Panic IndexOutOfRange
                  else
                    let table1 = foldl (\<lambda>t i. AddRow t (server_row (cNames ! i) (cHosts ! i) (ranked ! i)))
                                   table0 [0 ..< length ranked];
                        table2 = AddRow (AddSeparator table1) (totals_row st)
                    in Tables table2 (if clusters st \<noteq> Map.empty then Some (clusters st) else None)))"

section \<open>Notions used in the statements\<close>

subsection \<open>Insertion sort as a function on lists\<close>

text \<open>
  \<open>insl lessf x p\<close> is the inner loop of \<open>insertionSort_func\<close> seen from the element
  \<open>x\<close>: \<open>p\<close> is the sorted part before \<open>x\<close>, last element first, and \<open>x\<close> moves past every
  element it is less than until it meets one it is not less than. \<open>isort_rev\<close> inserts
  the elements of a slice one after the other, and gives the sorted slice in reverse.
\<close>

fun insl :: "('a \<Rightarrow> 'a \<Rightarrow> bool) \<Rightarrow> 'a \<Rightarrow> 'a list \<Rightarrow> 'a list" where
  "insl lessf x [] = [x]"
| "insl lessf x (y # ys) = (if lessf x y then y # insl lessf x ys else x # y # ys)"

definition isort_rev :: "('a \<Rightarrow> 'a \<Rightarrow> bool) \<Rightarrow> 'a list \<Rightarrow> 'a list" where
  "isort_rev lessf xs = foldl (\<lambda>p x. insl lessf x p) [] xs"

subsection \<open>The value a sort key compares\<close>

text \<open>
  The keys whose comparison is \<open>rev (x < y)\<close>; \<open>uptime\<close> and the default compare with
  \<open>rev (x > y)\<close>, and \<open>name\<close> does not go through \<open>rev\<close>.
\<close>

definition metric_keys :: "string set" where
  "metric_keys = {''conns'', ''conn'', ''subs'', ''sub'', ''routes'', ''route'', ''gws'', ''gw'',
                  ''mem'', ''cpu'', ''slow''}"

text \<open>
  The number that the comparison of a key reads off a result: signed for \<open>int\<close>, \<open>int64\<close>
  and \<open>time.Duration\<close>, unsigned for \<open>uint32\<close>, the length for a slice.
\<close>

definition metric :: "string \<Rightarrow> result \<Rightarrow> rat" where
  "metric k r =
     (if k = ''conns'' \<or> k = ''conn'' then of_int (sint (Connections (Stats r)))
      else if k = ''subs'' \<or> k = ''sub'' then of_nat (unat (NumSubs (Stats r)))
      else if k = ''routes'' \<or> k = ''route'' then of_nat (length (Routes (Stats r)))
      else if k = ''gws'' \<or> k = ''gw'' then of_nat (length (Gateways (Stats r)))
      else if k = ''mem'' then of_int (sint (Mem (Stats r)))
      else if k = ''cpu'' then CPU (Stats r)
      else if k = ''slow'' then of_int (sint (SlowConsumers (Stats r)))
      else if k = ''uptime'' then of_int (sint (UnixNano (Start (Stats r))))
      else of_int (sint (rtt r)))"

datatype key_value = Name_key string | Metric_key rat

definition sort_value :: "SrvLsCmd \<Rightarrow> result \<Rightarrow> key_value" where
  "sort_value c r =
     (if sort_flag c = ''name'' then Name_key (Name (Server r))
      else Metric_key (metric (sort_flag c) r))"

subsection \<open>Feeding records to the aggregation one at a time\<close>

text \<open>
  The aggregation step applied to one record after the other, until one of them panics.
\<close>

fun aggregate :: "accum \<Rightarrow> (ServerStatsMsg \<times> Duration) list \<Rightarrow> runtime_error + accum" where
  "aggregate st [] = Inr st"
| "aggregate st (m # ms) =
     (case onRecord st (fst m) (snd m) of Inl panic \<Rightarrow> Inl panic | Inr st' \<Rightarrow> aggregate st' ms)"

text \<open>
  The records on which the step does not panic: the loop over the gateways runs only for a
  record with a cluster name, and panics on a nil entry.
\<close>

definition aggregable :: "ServerStatsMsg \<Rightarrow> bool" where
  "aggregable m \<longleftrightarrow> Cluster (Server m) = [] \<or> None \<notin> set (Gateways (Stats m))"

text \<open>The cluster entry that the callback creates at line 108.\<close>

definition new_cluster :: "string \<Rightarrow> srvListCluster" where
  "new_cluster k = \<lparr>name = k, nodes = [], gwOut = 0, gwIn = 0, conns = 0\<rparr>"

text \<open>
  The inbound connections over the gateways of one message (lines 114 to 116), where no
  entry is nil.
\<close>

definition inbound :: "ServerStatsMsg \<Rightarrow> go_int" where
  "inbound m = sum_list (map (\<lambda>g. case g of None \<Rightarrow> 0 | Some x \<Rightarrow> NumInbound x) (Gateways (Stats m)))"

text \<open>
  The state after the step on a record on which it does not panic, and after a sequence of
  such records.
\<close>

definition recorded :: "accum \<Rightarrow> ServerStatsMsg \<Rightarrow> Duration \<Rightarrow> accum" where
  "recorded st m since =
     (let k = Cluster (Server m);
          cl0 = (case clusters st k of None \<Rightarrow> new_cluster k | Some cl \<Rightarrow> cl)
      in st\<lparr>servers := servers st + 1,
            connections := connections st + Connections (Stats m),
            memory := memory st + Mem (Stats m),
            slow := slow st + SlowConsumers (Stats m),
            subs := subs st + NumSubs (Stats m),
            js := (if JetStream (Server m) then js st + 1 else js st),
            clusters :=
              (if k \<noteq> []
               then (clusters st)(k \<mapsto>
                      cl0\<lparr>conns := conns cl0 + Connections (Stats m),
                          nodes := nodes cl0 @ [Name (Server m)],
                          gwOut := gwOut cl0 + of_nat (length (Gateways (Stats m))),
                          gwIn := gwIn cl0 + inbound m\<rparr>)
               else clusters st),
            results := results st @ [\<lparr>Server = Server m, Stats = Stats m, rtt = since\<rparr>]\<rparr>)"

definition merge_all :: "accum \<Rightarrow> (ServerStatsMsg \<times> Duration) list \<Rightarrow> accum" where
  "merge_all st ms = foldl (\<lambda>s m. recorded s (fst m) (snd m)) st ms"

text \<open>The messages of a run that name cluster \<open>k\<close>, in arrival order.\<close>

definition in_cluster :: "string \<Rightarrow> (ServerStatsMsg \<times> Duration) list \<Rightarrow> ServerStatsMsg list" where
  "in_cluster k ms = filter (\<lambda>m. Cluster (Server m) = k) (map fst ms)"

subsection \<open>Replies\<close>

text \<open>Replies that all decode, and the replies that \<open>doReqAsync\<close> hands to the callback.\<close>

definition decoded :: "(ServerStatsMsg \<times> Duration) list \<Rightarrow> reply list" where
  "decoded ms = map (\<lambda>m. (Inr (fst m), snd m)) ms"

definition delivered :: "SrvLsCmd \<Rightarrow> reply list \<Rightarrow> reply list" where
  "delivered c replies = (if unat (expect c) = 0 then replies else take (unat (expect c)) replies)"

definition no_results :: string where
  "no_results = ''no results received, ensure the account used has system privileges and appropriate permissions''"

subsection \<open>Sample data\<close>

text \<open>
  \<open>no_pdq\<close> stands for \<open>pdq\<close> where the slice has at most 12 elements and \<open>pdq\<close> is not
  called; \<open>insertion_pdq\<close> is a \<open>pdq\<close> that meets \<open>sorts_long_slices\<close>; \<open>no_compaction\<close>
  stands for \<open>compactStrings\<close> where \<open>compact\<close> is off. \<open>msg n cl cn m\<close> is the status of
  a server named \<open>n\<close> in cluster \<open>cl\<close> with \<open>cn\<close> connections and \<open>m\<close> bytes of memory.
\<close>

definition no_pdq :: "('a \<Rightarrow> 'a \<Rightarrow> bool) \<Rightarrow> 'a list \<Rightarrow> 'a list" where
  "no_pdq lessf xs = xs"

definition insertion_pdq :: "('a \<Rightarrow> 'a \<Rightarrow> bool) \<Rightarrow> 'a list \<Rightarrow> 'a list" where
  "insertion_pdq lessf xs = insertionSort_func lessf 0 (length xs) xs"

definition no_compaction :: "string list \<Rightarrow> string list" where
  "no_compaction xs = xs"

definition msg :: "string \<Rightarrow> string \<Rightarrow> go_int \<Rightarrow> int64 \<Rightarrow> ServerStatsMsg" where
  "msg n cl cn m =
     \<lparr>Server = \<lparr>Name = n, Host = ''10.0.0.1'', Cluster = cl, Domain_f = [], Version = ''2.9.0'',
                 JetStream = False, Time = 0\<rparr>,
      Stats = \<lparr>Start = 0, Mem = m, Cores = 1, CPU = 0, Connections = cn, NumSubs = 0,
                SlowConsumers = 0, Routes = [], Gateways = []\<rparr>\<rparr>"

definition res :: "ServerStatsMsg \<Rightarrow> Duration \<Rightarrow> result" where
  "res m d = \<lparr>Server = Server m, Stats = Stats m, rtt = d\<rparr>"

definition cmd :: "string \<Rightarrow> bool \<Rightarrow> SrvLsCmd" where
  "cmd k r = \<lparr>expect = 0, json = False, sort_flag = k, reverse = r, compact_flag = False\<rparr>"

section \<open>Package sort: what insertion sort does\<close>

lemma length_insl: "length (insl lessf x p) = Suc (length p)"
  by (induction p) auto

lemma mset_insl: "mset (insl lessf x p) = add_mset x (mset p)"
  by (induction p) auto

lemma set_insl: "set (insl lessf x p) = insert x (set p)"
  by (induction p) auto

lemma Swap_adjacent:
  "Swap (pre @ y # x # post) (Suc (length pre)) (length pre) = pre @ x # y # post"
  by (simp add: Swap_def list_update_append nth_append)

text \<open>One run of the inner loop, started at the end of a sorted part of length \<open>length p\<close>.\<close>

lemma inner_insl:
  "insertionSort_inner lessf 0 (length p) (rev p @ x # post) = rev (insl lessf x p) @ post"
proof (induction p arbitrary: post)
  case Nil
  show ?case by simp
next
  case (Cons y ys)
  have sw: "Swap (rev ys @ y # x # post) (Suc (length ys)) (length ys) = rev ys @ x # y # post"
    using Swap_adjacent [of "rev ys" y x post] by simp
  show ?case
  proof (cases "lessf x y")
    case True
    then show ?thesis
      using Cons.IH [of "y # post"] sw by (simp add: nth_append)
  next
    case False
    then show ?thesis by (simp add: nth_append)
  qed
qed

lemma length_isort_rev: "length (isort_rev lessf xs) = length xs"
  unfolding isort_rev_def
  by (induction xs rule: rev_induct) (auto simp: length_insl)

lemma insertionSort_prefix:
  "n \<le> length xs \<Longrightarrow>
   foldl (\<lambda>ys i. insertionSort_inner lessf 0 i ys) xs [1 ..< n] =
     rev (isort_rev lessf (take n xs)) @ drop n xs"
proof (induction n)
  case 0
  show ?case by (simp add: isort_rev_def)
next
  case (Suc n)
  then have n: "n < length xs" by simp
  show ?case
  proof (cases "n = 0")
    case True
    with n show ?thesis
      by (cases xs) (simp_all add: isort_rev_def)
  next
    case False
    then have upt: "[1 ..< Suc n] = [1 ..< n] @ [n]" by simp
    have tk: "take (Suc n) xs = take n xs @ [xs ! n]"
      using n by (simp add: take_Suc_conv_app_nth)
    have dr: "drop n xs = xs ! n # drop (Suc n) xs"
      using n by (simp add: Cons_nth_drop_Suc)
    have len: "length (isort_rev lessf (take n xs)) = n"
      using n by (simp add: length_isort_rev)
    have "foldl (\<lambda>ys i. insertionSort_inner lessf 0 i ys) xs [1 ..< Suc n] =
          insertionSort_inner lessf 0 n (foldl (\<lambda>ys i. insertionSort_inner lessf 0 i ys) xs [1 ..< n])"
      unfolding upt by simp
    also have "\<dots> =
          insertionSort_inner lessf 0 n (rev (isort_rev lessf (take n xs)) @ xs ! n # drop (Suc n) xs)"
      using Suc.IH n dr by simp
    also have "\<dots> = rev (insl lessf (xs ! n) (isort_rev lessf (take n xs))) @ drop (Suc n) xs"
      using inner_insl [of lessf "isort_rev lessf (take n xs)" "xs ! n" "drop (Suc n) xs"] len by simp
    also have "\<dots> = rev (isort_rev lessf (take (Suc n) xs)) @ drop (Suc n) xs"
      by (simp add: tk isort_rev_def)
    finally show ?thesis .
  qed
qed

lemma insertionSort_func_isort:
  "insertionSort_func lessf 0 (length xs) xs = rev (isort_rev lessf xs)"
  using insertionSort_prefix [of "length xs" xs lessf] by (simp add: insertionSort_func_def)

lemma mset_isort_rev: "mset (isort_rev lessf xs) = mset xs"
  unfolding isort_rev_def
  by (induction xs rule: rev_induct) (auto simp: mset_insl)

text \<open>
  Where \<open>x\<close> stops, nothing further to the left is greater than \<open>x\<close> either: this is where
  the two halves of a transitive ordering are used.
\<close>

lemma stop_blocks:
  assumes "transitive_ordering lessf"
    and "sorted_wrt (\<lambda>a b. lessf b a \<or> \<not> lessf a b) (y # ys)"
    and "\<not> lessf x y" and "z \<in> set ys"
  shows "\<not> lessf x z"
proof
  assume xz: "lessf x z"
  from assms(2,4) have "lessf z y \<or> \<not> lessf y z" by simp
  then show False
  proof
    assume "lessf z y"
    with xz assms(1) have "lessf x y" unfolding transitive_ordering_def by blast
    with assms(3) show False by simp
  next
    assume "\<not> lessf y z"
    with assms(3) assms(1) have "\<not> lessf x z" unfolding transitive_ordering_def by blast
    with xz show False by simp
  qed
qed

lemma ordered_insl:
  assumes "transitive_ordering lessf"
  shows "sorted_wrt (\<lambda>a b. lessf b a \<or> \<not> lessf a b) p \<Longrightarrow>
         sorted_wrt (\<lambda>a b. lessf b a \<or> \<not> lessf a b) (insl lessf x p)"
proof (induction p)
  case Nil
  show ?case by simp
next
  case (Cons y ys)
  show ?case
  proof (cases "lessf x y")
    case True
    with Cons show ?thesis by (auto simp: set_insl)
  next
    case False
    have "\<forall>z\<in>set ys. \<not> lessf x z"
      using stop_blocks [OF assms Cons.prems False] by blast
    with False Cons.prems show ?thesis by auto
  qed
qed

lemma ordered_isort_rev:
  assumes "transitive_ordering lessf"
  shows "sorted_wrt (\<lambda>a b. lessf b a \<or> \<not> lessf a b) (isort_rev lessf xs)"
  unfolding isort_rev_def
  by (induction xs rule: rev_induct) (auto intro: ordered_insl [OF assms])

lemma in_order_insertionSort:
  "transitive_ordering lessf \<Longrightarrow> in_order lessf (insertionSort_func lessf 0 (length xs) xs)"
  by (simp add: in_order_def insertionSort_func_isort sorted_wrt_rev ordered_isort_rev)

lemma mset_insertionSort: "mset (insertionSort_func lessf 0 (length xs) xs) = mset xs"
  by (simp add: insertionSort_func_isort mset_isort_rev)

text \<open>
  Ties. A comparison that is false between equal keys never moves one past the other; a
  comparison that is true between equal keys moves each new element past all of them.
\<close>

lemma filter_insl_strict:
  assumes "\<And>a b. lessf a b \<Longrightarrow> key a \<noteq> key b"
  shows "filter (\<lambda>r. key r = v) (insl lessf x p) = filter (\<lambda>r. key r = v) (x # p)"
  using assms by (induction p) auto

lemma filter_isort_rev_strict:
  assumes "\<And>a b. lessf a b \<Longrightarrow> key a \<noteq> key b"
  shows "filter (\<lambda>r. key r = v) (isort_rev lessf xs) = rev (filter (\<lambda>r. key r = v) xs)"
  unfolding isort_rev_def
  by (induction xs rule: rev_induct) (simp_all add: filter_insl_strict [of lessf key, OF assms])

lemma filter_insl_reflexive:
  assumes tr: "transitive_ordering lessf"
    and tie: "\<And>a b. key a = key b \<Longrightarrow> lessf a b"
  shows "sorted_wrt (\<lambda>a b. lessf b a \<or> \<not> lessf a b) p \<Longrightarrow>
         filter (\<lambda>r. key r = v) (insl lessf x p) = filter (\<lambda>r. key r = v) p @ filter (\<lambda>r. key r = v) [x]"
proof (induction p)
  case Nil
  show ?case by simp
next
  case (Cons y ys)
  show ?case
  proof (cases "lessf x y")
    case True
    with Cons show ?thesis by simp
  next
    case False
    have blocked: "\<forall>z\<in>set ys. \<not> lessf x z"
      using stop_blocks [OF tr Cons.prems False] by blast
    show ?thesis
    proof (cases "key x = v")
      case kx: True
      have "key y \<noteq> v" using False tie [of x y] kx by auto
      moreover have "\<forall>z\<in>set ys. key z \<noteq> v" using blocked tie kx by metis
      then have "filter (\<lambda>r. key r = v) ys = []" by (simp add: filter_empty_conv)
      ultimately show ?thesis using False kx by simp
    next
      case False2: False
      with False show ?thesis by simp
    qed
  qed
qed

lemma filter_isort_rev_reflexive:
  assumes tr: "transitive_ordering lessf"
    and tie: "\<And>a b. key a = key b \<Longrightarrow> lessf a b"
  shows "filter (\<lambda>r. key r = v) (isort_rev lessf xs) = filter (\<lambda>r. key r = v) xs"
proof (induction xs rule: rev_induct)
  case Nil
  show ?case by (simp add: isort_rev_def)
next
  case (snoc x xs)
  have "isort_rev lessf (xs @ [x]) = insl lessf x (isort_rev lessf xs)"
    by (simp add: isort_rev_def)
  then show ?case
    using filter_insl_reflexive [OF tr tie, of key "isort_rev lessf xs" v x, OF _ ordered_isort_rev [OF tr]]
      snoc.IH by simp
qed

lemma stable_insertionSort:
  assumes "\<And>a b. lessf a b \<Longrightarrow> key a \<noteq> key b"
  shows "filter (\<lambda>r. key r = v) (insertionSort_func lessf 0 (length xs) xs) = filter (\<lambda>r. key r = v) xs"
  by (simp add: insertionSort_func_isort filter_isort_rev_strict [of lessf key, OF assms] flip: rev_filter)

lemma reversing_insertionSort:
  assumes "transitive_ordering lessf" and "\<And>a b. key a = key b \<Longrightarrow> lessf a b"
  shows "filter (\<lambda>r. key r = v) (insertionSort_func lessf 0 (length xs) xs) = rev (filter (\<lambda>r. key r = v) xs)"
  by (simp add: insertionSort_func_isort filter_isort_rev_reflexive [of lessf key, OF assms] flip: rev_filter)

section \<open>Ranking\<close>

subsection \<open>The comparison closure\<close>

lemma less_fn_name: "sort_flag c = ''name'' \<Longrightarrow> less_fn c a b = (Name (Server a) < Name (Server b))"
  by (simp add: less_fn_def)

lemma less_fn_forward:
  "sort_flag c \<in> metric_keys \<Longrightarrow>
   less_fn c a b = rev_fn c (metric (sort_flag c) a < metric (sort_flag c) b)"
  unfolding metric_keys_def
  by (auto simp: less_fn_def metric_def Let_def word_sless_alt word_less_nat_alt
        simp del: of_int_sint of_nat_unat)

lemma less_fn_backward:
  "sort_flag c \<notin> metric_keys \<Longrightarrow> sort_flag c \<noteq> ''name'' \<Longrightarrow>
   less_fn c a b = rev_fn c (metric (sort_flag c) b < metric (sort_flag c) a)"
  unfolding metric_keys_def
  by (auto simp: less_fn_def metric_def Let_def word_sless_alt simp del: of_int_sint)

lemma transitive_strict: "transitive_ordering (\<lambda>a b. (f a :: 'k :: linorder) < f b)"
  unfolding transitive_ordering_def by auto

lemma transitive_reflexive: "transitive_ordering (\<lambda>a b. \<not> (f a :: 'k :: linorder) < f b)"
  unfolding transitive_ordering_def by auto

lemma less_fn_cases:
  "less_fn c = (\<lambda>a b. Name (Server a) < Name (Server b)) \<or>
   less_fn c = (\<lambda>a b. metric (sort_flag c) a < metric (sort_flag c) b) \<or>
   less_fn c = (\<lambda>a b. \<not> metric (sort_flag c) a < metric (sort_flag c) b) \<or>
   less_fn c = (\<lambda>a b. metric (sort_flag c) b < metric (sort_flag c) a) \<or>
   less_fn c = (\<lambda>a b. \<not> metric (sort_flag c) b < metric (sort_flag c) a)"
proof (cases "sort_flag c = ''name''")
  case True
  then show ?thesis by (simp add: less_fn_name fun_eq_iff)
next
  case False
  show ?thesis
  proof (cases "sort_flag c \<in> metric_keys")
    case True
    then show ?thesis by (cases "reverse c") (simp_all add: less_fn_forward rev_fn_def fun_eq_iff)
  next
    case False2: False
    with False show ?thesis
      by (cases "reverse c") (simp_all add: less_fn_backward rev_fn_def fun_eq_iff)
  qed
qed

text \<open>
  With or without the reverse flag the closure is a transitive ordering in the sense of
  package sort, although without the flag it holds between equal values.
\<close>

lemma transitive_less_fn: "transitive_ordering (less_fn c)"
proof -
  have "transitive_ordering (\<lambda>a b. metric (sort_flag c) b < metric (sort_flag c) a)"
    unfolding transitive_ordering_def by auto
  moreover have "transitive_ordering (\<lambda>a b. \<not> metric (sort_flag c) b < metric (sort_flag c) a)"
    unfolding transitive_ordering_def by auto
  ultimately show ?thesis
    using less_fn_cases [of c]
      transitive_strict [of "\<lambda>r. Name (Server r)"]
      transitive_strict [of "metric (sort_flag c)"]
      transitive_reflexive [of "metric (sort_flag c)"]
    by auto
qed

lemma rank_short: "length rs \<le> 12 \<Longrightarrow> rank pdq c rs = insertionSort_func (less_fn c) 0 (length rs) rs"
  by (simp add: rank_def sort_Slice_def)

lemma rank_long: "12 < length rs \<Longrightarrow> rank pdq c rs = pdq (less_fn c) rs"
  by (simp add: rank_def sort_Slice_def)

lemma rank_eval: "length rs \<le> 12 \<Longrightarrow> rank pdq c rs = rev (foldl (\<lambda>p x. insl (less_fn c) x p) [] rs)"
  by (simp add: rank_short insertionSort_func_isort isort_rev_def)

lemma rank_permutes_in_order:
  assumes "sorts_long_slices pdq \<or> length rs \<le> 12"
  shows "mset (rank pdq c rs) = mset rs \<and> in_order (less_fn c) (rank pdq c rs)"
proof (cases "length rs \<le> 12")
  case True
  then show ?thesis
    by (simp add: rank_short mset_insertionSort in_order_insertionSort transitive_less_fn)
next
  case False
  with assms have "sorts_long_slices pdq" and "12 < length rs" by auto
  then show ?thesis
    using transitive_less_fn [of c] unfolding sorts_long_slices_def by (simp add: rank_long)
qed

lemma sorts_long_slices_insertion: "sorts_long_slices insertion_pdq"
  unfolding sorts_long_slices_def insertion_pdq_def
  by (simp add: mset_insertionSort in_order_insertionSort)

subsection \<open>The order of the ranked output\<close>

text \<open>
  Claim C2. For the keys conns/conn, subs/sub, routes/route, gws/gw, mem, cpu and slow the
  ranked output is a permutation of the results that descends on the metric when the reverse
  flag is off and ascends when it is on; for the key name it ascends on the server name
  whatever the flag. Up to 12 results this is what the insertion sort of \<open>sort.Slice\<close> does;
  for more it rests on \<open>pdq\<close>, the rest of \<open>pdqsort_func\<close>, putting a slice in the order
  of any transitive ordering.
\<close>

theorem rank_metric_order:
  assumes "sorts_long_slices pdq \<or> length rs \<le> 12"
  shows "mset (rank pdq c rs) = mset rs \<and>
    (sort_flag c \<in> metric_keys \<and> \<not> reverse c \<longrightarrow>
       sorted_wrt (\<lambda>a b. metric (sort_flag c) b \<le> metric (sort_flag c) a) (rank pdq c rs)) \<and>
    (sort_flag c \<in> metric_keys \<and> reverse c \<longrightarrow>
       sorted_wrt (\<lambda>a b. metric (sort_flag c) a \<le> metric (sort_flag c) b) (rank pdq c rs)) \<and>
    (sort_flag c = ''name'' \<longrightarrow>
       sorted_wrt (\<lambda>a b. Name (Server a) \<le> Name (Server b)) (rank pdq c rs))"
proof -
  note io = rank_permutes_in_order [OF assms, of c]
  have ord: "sorted_wrt (\<lambda>x y. less_fn c x y \<or> \<not> less_fn c y x) (rank pdq c rs)"
    using io by (simp add: in_order_def)
  have 1: "sorted_wrt (\<lambda>a b. metric (sort_flag c) b \<le> metric (sort_flag c) a) (rank pdq c rs)"
    if "sort_flag c \<in> metric_keys" "\<not> reverse c"
    using ord that by (auto simp: less_fn_forward rev_fn_def elim!: sorted_wrt_mono_rel [rotated])
  have 2: "sorted_wrt (\<lambda>a b. metric (sort_flag c) a \<le> metric (sort_flag c) b) (rank pdq c rs)"
    if "sort_flag c \<in> metric_keys" "reverse c"
    using ord that by (auto simp: less_fn_forward rev_fn_def elim!: sorted_wrt_mono_rel [rotated])
  have 3: "sorted_wrt (\<lambda>a b. Name (Server a) \<le> Name (Server b)) (rank pdq c rs)"
    if "sort_flag c = ''name''"
    using ord that by (auto simp: less_fn_name elim!: sorted_wrt_mono_rel [rotated])
  show ?thesis using io 1 2 3 by blast
qed

theorem rank_metric_order_witness:
  "sorts_long_slices (insertion_pdq :: (result \<Rightarrow> result \<Rightarrow> bool) \<Rightarrow> result list \<Rightarrow> result list) \<and>
   map (\<lambda>r. Mem (Stats r))
     (rank insertion_pdq (cmd ''mem'' False)
        [res (msg ''a'' [] 0 100) 1, res (msg ''b'' [] 0 300) 2, res (msg ''c'' [] 0 200) 3]) =
     [300, 200, 100] \<and>
   sorted_wrt (\<lambda>a b. metric ''mem'' b \<le> metric ''mem'' a)
     (rank insertion_pdq (cmd ''mem'' False)
        [res (msg ''a'' [] 0 100) 1, res (msg ''b'' [] 0 300) 2, res (msg ''c'' [] 0 200) 3]) \<and>
   map (\<lambda>r. Mem (Stats r))
     (rank insertion_pdq (cmd ''mem'' True)
        [res (msg ''a'' [] 0 100) 1, res (msg ''b'' [] 0 300) 2, res (msg ''c'' [] 0 200) 3]) =
     [100, 200, 300] \<and>
   map (\<lambda>r. Name (Server r))
     (rank insertion_pdq (cmd ''name'' False)
        [res (msg ''c'' [] 0 100) 1, res (msg ''a'' [] 0 300) 2, res (msg ''b'' [] 0 200) 3]) =
     [''a'', ''b'', ''c'']"
proof -
  let ?rs = "[res (msg ''a'' [] 0 100) 1, res (msg ''b'' [] 0 300) 2, res (msg ''c'' [] 0 200) 3]"
  have h: "sorts_long_slices (insertion_pdq :: (result \<Rightarrow> result \<Rightarrow> bool) \<Rightarrow> result list \<Rightarrow> result list)
             \<or> length ?rs \<le> 12"
    by (simp add: sorts_long_slices_insertion)
  have k: "sort_flag (cmd ''mem'' False) \<in> metric_keys \<and> \<not> reverse (cmd ''mem'' False)"
    by (simp add: cmd_def metric_keys_def)
  have "sorted_wrt (\<lambda>a b. metric ''mem'' b \<le> metric ''mem'' a) (rank insertion_pdq (cmd ''mem'' False) ?rs)"
    using rank_metric_order [OF h, of "cmd ''mem'' False"] k by (simp add: cmd_def)
  then show ?thesis
    by (simp add: sorts_long_slices_insertion rank_eval less_fn_def rev_fn_def cmd_def res_def msg_def
        word_sless_alt)
qed

subsection \<open>Ties\<close>

text \<open>
  Claim C1, amended. The spec has ties keep their arrival order for every key and both values
  of the flag. \<open>sort.Slice\<close> is not a stable sort, and without the reverse flag the closure
  is \<open>\<not> (x < y)\<close>, true between equal values. For up to 12 results (insertion sort): with
  the key name, or with the reverse flag on, results of equal sort value keep their arrival
  order; with the flag off and any other key they come out in the reverse of their arrival
  order.
\<close>

theorem rank_ties:
  assumes "length rs \<le> 12"
  shows "(sort_flag c = ''name'' \<or> reverse c \<longrightarrow>
            filter (\<lambda>r. sort_value c r = v) (rank pdq c rs) = filter (\<lambda>r. sort_value c r = v) rs) \<and>
         (sort_flag c \<noteq> ''name'' \<and> \<not> reverse c \<longrightarrow>
            filter (\<lambda>r. sort_value c r = v) (rank pdq c rs) = rev (filter (\<lambda>r. sort_value c r = v) rs))"
proof (intro conjI impI)
  assume a: "sort_flag c = ''name'' \<or> reverse c"
  have strict: "sort_value c x \<noteq> sort_value c y" if "less_fn c x y" for x y
  proof (cases "sort_flag c = ''name''")
    case True
    with that show ?thesis by (auto simp: less_fn_name sort_value_def)
  next
    case False
    with a have r: "reverse c" by simp
    show ?thesis
    proof (cases "sort_flag c \<in> metric_keys")
      case True
      with that r False show ?thesis by (auto simp: less_fn_forward rev_fn_def sort_value_def)
    next
      case out: False
      with that r False show ?thesis by (auto simp: less_fn_backward rev_fn_def sort_value_def)
    qed
  qed
  show "filter (\<lambda>r. sort_value c r = v) (rank pdq c rs) = filter (\<lambda>r. sort_value c r = v) rs"
    using stable_insertionSort [of "less_fn c" "sort_value c" v rs] strict assms
    by (simp add: rank_short)
next
  assume a: "sort_flag c \<noteq> ''name'' \<and> \<not> reverse c"
  have tie: "less_fn c x y" if "sort_value c x = sort_value c y" for x y
  proof (cases "sort_flag c \<in> metric_keys")
    case True
    with that a show ?thesis by (auto simp: less_fn_forward rev_fn_def sort_value_def)
  next
    case False
    with that a show ?thesis by (auto simp: less_fn_backward rev_fn_def sort_value_def)
  qed
  show "filter (\<lambda>r. sort_value c r = v) (rank pdq c rs) = rev (filter (\<lambda>r. sort_value c r = v) rs)"
    using reversing_insertionSort [of "less_fn c" "sort_value c" v rs] tie transitive_less_fn assms
    by (simp add: rank_short)
qed

theorem rank_ties_witness:
  "length [res (msg ''a'' [] 5 0) 1, res (msg ''b'' [] 7 0) 2, res (msg ''c'' [] 5 0) 3] \<le> 12 \<and>
   filter (\<lambda>r. sort_value (cmd ''conns'' True) r = Metric_key 5)
     (rank no_pdq (cmd ''conns'' True)
        [res (msg ''a'' [] 5 0) 1, res (msg ''b'' [] 7 0) 2, res (msg ''c'' [] 5 0) 3]) =
     [res (msg ''a'' [] 5 0) 1, res (msg ''c'' [] 5 0) 3] \<and>
   filter (\<lambda>r. sort_value (cmd ''conns'' False) r = Metric_key 5)
     (rank no_pdq (cmd ''conns'' False)
        [res (msg ''a'' [] 5 0) 1, res (msg ''b'' [] 7 0) 2, res (msg ''c'' [] 5 0) 3]) =
     [res (msg ''c'' [] 5 0) 3, res (msg ''a'' [] 5 0) 1]"
  using
    rank_ties [of "[res (msg ''a'' [] 5 0) 1, res (msg ''b'' [] 7 0) 2, res (msg ''c'' [] 5 0) 3]"
      "cmd ''conns'' True" "Metric_key 5" no_pdq]
    rank_ties [of "[res (msg ''a'' [] 5 0) 1, res (msg ''b'' [] 7 0) 2, res (msg ''c'' [] 5 0) 3]"
      "cmd ''conns'' False" "Metric_key 5" no_pdq]
  by (simp add: cmd_def sort_value_def metric_def msg_def res_def)

text \<open>
  Two servers with 5 connections each, ranked by conns without the reverse flag: the one
  that arrived second comes first.
\<close>

theorem rank_ties_counterexample:
  "rank no_pdq (cmd ''conns'' False) [res (msg ''a'' [] 5 0) 1, res (msg ''b'' [] 5 0) 2] =
     [res (msg ''b'' [] 5 0) 2, res (msg ''a'' [] 5 0) 1] \<and>
   sort_value (cmd ''conns'' False) (res (msg ''a'' [] 5 0) 1) =
     sort_value (cmd ''conns'' False) (res (msg ''b'' [] 5 0) 2) \<and>
   res (msg ''a'' [] 5 0) 1 \<noteq> res (msg ''b'' [] 5 0) 2"
  by (simp add: rank_eval less_fn_def rev_fn_def cmd_def res_def msg_def word_sless_alt
      sort_value_def metric_def)

subsection \<open>The default key\<close>

text \<open>
  Claim C3, amended. The spec has the default key (rtt) follow the rule of the metrics: higher
  round-trip times first without the reverse flag. The closure of the default case is
  \<open>rev (rtt i > rtt j)\<close>, the comparison turned around: without the reverse flag the ranked
  output ascends on the round-trip time (lower first), with the flag it descends (higher first).
\<close>

theorem rank_default_order:
  assumes "sorts_long_slices pdq \<or> length rs \<le> 12"
    and "sort_flag c \<notin> metric_keys" and "sort_flag c \<noteq> ''name''" and "sort_flag c \<noteq> ''uptime''"
  shows "(\<not> reverse c \<longrightarrow> sorted_wrt (\<lambda>a b. sint (rtt a) \<le> sint (rtt b)) (rank pdq c rs)) \<and>
         (reverse c \<longrightarrow> sorted_wrt (\<lambda>a b. sint (rtt b) \<le> sint (rtt a)) (rank pdq c rs))"
proof -
  have ord: "sorted_wrt (\<lambda>x y. less_fn c x y \<or> \<not> less_fn c y x) (rank pdq c rs)"
    using rank_permutes_in_order [OF assms(1), of c] by (simp add: in_order_def)
  have m: "metric (sort_flag c) r = of_int (sint (rtt r))" for r
    using assms(2-4) unfolding metric_keys_def metric_def by simp
  have lf: "less_fn c a b = rev_fn c (sint (rtt b) < sint (rtt a))" for a b
    using less_fn_backward [OF assms(2,3), of a b] unfolding m by (simp only: of_int_less_iff)
  show ?thesis
    using ord by (auto simp: lf rev_fn_def elim!: sorted_wrt_mono_rel [rotated])
qed

theorem rank_default_order_witness:
  "sort_flag (cmd ''rtt'' False) \<notin> metric_keys \<and>
   map rtt (rank no_pdq (cmd ''rtt'' False) [res (msg ''a'' [] 0 0) 1, res (msg ''b'' [] 0 0) 2]) = [1, 2] \<and>
   sorted_wrt (\<lambda>a b. sint (rtt a) \<le> sint (rtt b))
     (rank no_pdq (cmd ''rtt'' False) [res (msg ''a'' [] 0 0) 1, res (msg ''b'' [] 0 0) 2]) \<and>
   map rtt (rank no_pdq (cmd ''rtt'' True) [res (msg ''a'' [] 0 0) 1, res (msg ''b'' [] 0 0) 2]) = [2, 1] \<and>
   sorted_wrt (\<lambda>a b. sint (rtt b) \<le> sint (rtt a))
     (rank no_pdq (cmd ''rtt'' True) [res (msg ''a'' [] 0 0) 1, res (msg ''b'' [] 0 0) 2])"
proof -
  let ?rs = "[res (msg ''a'' [] 0 0) 1, res (msg ''b'' [] 0 0) 2]"
  have h: "sorts_long_slices no_pdq \<or> length ?rs \<le> 12" by simp
  have k: "sort_flag (cmd ''rtt'' r) \<notin> metric_keys" "sort_flag (cmd ''rtt'' r) \<noteq> ''name''"
    "sort_flag (cmd ''rtt'' r) \<noteq> ''uptime''" for r
    by (simp_all add: cmd_def metric_keys_def)
  have "sorted_wrt (\<lambda>a b. sint (rtt a) \<le> sint (rtt b)) (rank no_pdq (cmd ''rtt'' False) ?rs)"
    using rank_default_order [OF h k, of False] by (simp add: cmd_def)
  moreover have "sorted_wrt (\<lambda>a b. sint (rtt b) \<le> sint (rtt a)) (rank no_pdq (cmd ''rtt'' True) ?rs)"
    using rank_default_order [OF h k, of True] by (simp add: cmd_def)
  ultimately show ?thesis
    using k(1) [of False]
    by (simp add: rank_eval less_fn_def rev_fn_def cmd_def res_def msg_def word_sless_alt)
qed

text \<open>
  Two replies that took 1 and 2 nanoseconds: without the flag the faster one stays first,
  with the flag the slower one comes first.
\<close>

theorem rank_default_counterexample:
  "rank no_pdq (cmd ''rtt'' False) [res (msg ''a'' [] 0 0) 1, res (msg ''b'' [] 0 0) 2] =
     [res (msg ''a'' [] 0 0) 1, res (msg ''b'' [] 0 0) 2] \<and>
   rank no_pdq (cmd ''rtt'' True) [res (msg ''a'' [] 0 0) 1, res (msg ''b'' [] 0 0) 2] =
     [res (msg ''b'' [] 0 0) 2, res (msg ''a'' [] 0 0) 1] \<and>
   sint (rtt (res (msg ''a'' [] 0 0) 1)) < sint (rtt (res (msg ''b'' [] 0 0) 2))"
  by (simp add: rank_eval less_fn_def rev_fn_def cmd_def res_def msg_def word_sless_alt)

section \<open>Aggregation\<close>

subsection \<open>One record\<close>

lemma gwIn_loop_eq:
  "gwIn_loop n gs =
     (if None \<in> set gs then Inl NilDereference
      else Inr (n + sum_list (map (\<lambda>g. case g of None \<Rightarrow> 0 | Some x \<Rightarrow> NumInbound x) gs)))"
  by (induction n gs rule: gwIn_loop.induct) (auto simp: add.assoc)

text \<open>The step either panics on a nil gateway or leaves the state \<open>recorded\<close>.\<close>

lemma onRecord_eq:
  "onRecord st m d = (if aggregable m then Inr (recorded st m d) else Inl NilDereference)"
  by (auto simp: onRecord_def recorded_def aggregable_def gwIn_loop_eq inbound_def Let_def
      new_cluster_def split: option.splits)

lemma merge_all_Nil: "merge_all st [] = st"
  by (simp add: merge_all_def)

lemma merge_all_snoc: "merge_all st (ms @ [m]) = recorded (merge_all st ms) (fst m) (snd m)"
  by (simp add: merge_all_def)

lemma merge_all_Cons: "merge_all st (m # ms) = merge_all (recorded st (fst m) (snd m)) ms"
  by (simp add: merge_all_def)

lemma recorded_servers: "servers (recorded st m d) = servers st + 1"
  by (simp add: recorded_def Let_def)

lemma recorded_connections: "connections (recorded st m d) = connections st + Connections (Stats m)"
  by (simp add: recorded_def Let_def)

lemma recorded_memory: "memory (recorded st m d) = memory st + Mem (Stats m)"
  by (simp add: recorded_def Let_def)

lemma recorded_slow: "slow (recorded st m d) = slow st + SlowConsumers (Stats m)"
  by (simp add: recorded_def Let_def)

lemma recorded_subs: "subs (recorded st m d) = subs st + NumSubs (Stats m)"
  by (simp add: recorded_def Let_def)

lemma recorded_js: "js (recorded st m d) = (if JetStream (Server m) then js st + 1 else js st)"
  by (simp add: recorded_def Let_def)

lemma recorded_results:
  "results (recorded st m d) = results st @ [\<lparr>Server = Server m, Stats = Stats m, rtt = d\<rparr>]"
  by (simp add: recorded_def Let_def)

lemma recorded_clusters:
  "clusters (recorded st m d) k =
     (if Cluster (Server m) \<noteq> [] \<and> k = Cluster (Server m)
      then let cl0 = (case clusters st k of None \<Rightarrow> new_cluster k | Some cl \<Rightarrow> cl)
           in Some \<lparr>name = name cl0,
                    nodes = nodes cl0 @ [Name (Server m)],
                    gwOut = gwOut cl0 + of_nat (length (Gateways (Stats m))),
                    gwIn = gwIn cl0 + inbound m,
                    conns = conns cl0 + Connections (Stats m)\<rparr>
      else clusters st k)"
  by (auto simp: recorded_def Let_def new_cluster_def split: option.splits)

subsection \<open>A sequence of records, in closed form\<close>

lemma merge_all_servers: "servers (merge_all st ms) = servers st + of_nat (length ms)"
  by (induction ms rule: rev_induct) (simp_all add: merge_all_Nil merge_all_snoc recorded_servers)

lemma merge_all_connections:
  "connections (merge_all st ms) = connections st + sum_list (map (\<lambda>m. Connections (Stats (fst m))) ms)"
  by (induction ms rule: rev_induct) (simp_all add: merge_all_Nil merge_all_snoc recorded_connections)

lemma merge_all_memory:
  "memory (merge_all st ms) = memory st + sum_list (map (\<lambda>m. Mem (Stats (fst m))) ms)"
  by (induction ms rule: rev_induct) (simp_all add: merge_all_Nil merge_all_snoc recorded_memory)

lemma merge_all_slow:
  "slow (merge_all st ms) = slow st + sum_list (map (\<lambda>m. SlowConsumers (Stats (fst m))) ms)"
  by (induction ms rule: rev_induct) (simp_all add: merge_all_Nil merge_all_snoc recorded_slow)

lemma merge_all_subs:
  "subs (merge_all st ms) = subs st + sum_list (map (\<lambda>m. NumSubs (Stats (fst m))) ms)"
  by (induction ms rule: rev_induct) (simp_all add: merge_all_Nil merge_all_snoc recorded_subs)

lemma merge_all_js:
  "js (merge_all st ms) = js st + of_nat (length (filter (\<lambda>m. JetStream (Server (fst m))) ms))"
  by (induction ms rule: rev_induct) (simp_all add: merge_all_Nil merge_all_snoc recorded_js)

lemma merge_all_results:
  "results (merge_all st ms) =
     results st @ map (\<lambda>m. \<lparr>Server = Server (fst m), Stats = Stats (fst m), rtt = snd m\<rparr>) ms"
  by (induction ms rule: rev_induct) (simp_all add: merge_all_Nil merge_all_snoc recorded_results)

lemma merge_all_clusters:
  "clusters (merge_all st ms) k =
     (if k = [] \<or> in_cluster k ms = [] then clusters st k
      else let cl0 = (case clusters st k of None \<Rightarrow> new_cluster k | Some cl \<Rightarrow> cl)
           in Some \<lparr>name = name cl0,
                    nodes = nodes cl0 @ map (\<lambda>m. Name (Server m)) (in_cluster k ms),
                    gwOut = gwOut cl0 + sum_list (map (\<lambda>m. of_nat (length (Gateways (Stats m)))) (in_cluster k ms)),
                    gwIn = gwIn cl0 + sum_list (map inbound (in_cluster k ms)),
                    conns = conns cl0 + sum_list (map (\<lambda>m. Connections (Stats m)) (in_cluster k ms))\<rparr>)"
proof (induction ms rule: rev_induct)
  case Nil
  show ?case by (simp add: merge_all_Nil in_cluster_def)
next
  case (snoc m ms)
  show ?case
    unfolding merge_all_snoc recorded_clusters snoc.IH
    by (auto simp: in_cluster_def Let_def new_cluster_def add.assoc split: option.splits)
qed

lemma aggregate_eq:
  "aggregate st ms =
     (if list_all aggregable (map fst ms) then Inr (merge_all st ms) else Inl NilDereference)"
proof (induction ms arbitrary: st)
  case Nil
  show ?case by (simp add: merge_all_Nil)
next
  case (Cons m ms)
  show ?case
    by (cases "aggregable (fst m)") (simp_all add: onRecord_eq Cons.IH merge_all_Cons)
qed

subsection \<open>Sums of machine integers\<close>

lemma unat_sum_list:
  "unat (sum_list ws :: 'a::len word) = sum_list (map unat ws) mod 2 ^ LENGTH('a)"
proof (induction ws)
  case Nil
  show ?case by simp
next
  case (Cons w ws)
  have "unat (w + sum_list ws) = (unat w + unat (sum_list ws)) mod 2 ^ LENGTH('a)"
    by (simp add: unat_word_ariths)
  also have "\<dots> = (unat w + sum_list (map unat ws)) mod 2 ^ LENGTH('a)"
    unfolding Cons.IH by (simp add: mod_add_right_eq)
  finally show ?case by simp
qed

lemma word_sum_list_sint:
  "(sum_list ws :: 'a::len word) = word_of_int (sum_list (map sint ws))"
  by (induction ws) simp_all

lemma sint_sum_list:
  "sint (sum_list ws :: 'a::len word) = signed_take_bit (LENGTH('a) - 1) (sum_list (map sint ws))"
  by (subst word_sum_list_sint) (simp only: sint_sbintrunc')

lemma sint_ucast_32_64: "sint (ucast (w :: 32 word) :: 64 word) = int (unat w)"
proof -
  have lt: "uint w < 2 ^ 32" using uint_lt2p [of w] by simp
  have "(ucast w :: 64 word) = word_of_int (uint w)" by simp
  then have "sint (ucast w :: 64 word) = signed_take_bit 63 (uint w)"
    by (simp only: sint_sbintrunc') simp
  also have "\<dots> = uint w"
  proof (rule signed_take_bit_int_eq_self)
    have "- (2 ^ 63) \<le> (0::int)" by simp
    also have "(0::int) \<le> uint w" by simp
    finally show "- (2 ^ 63) \<le> uint w" .
    have "(2::int) ^ 32 < 2 ^ 63" by simp
    with lt show "uint w < 2 ^ 63" by (rule less_trans)
  qed
  finally show ?thesis by simp
qed

subsection \<open>The callbacks of a run\<close>

lemma doReqAsync_delivered:
  "doReqAsync (unat (expect c)) cb replies st = callbacks cb (delivered c replies) st"
  by (simp add: doReqAsync_def delivered_def)

lemma callbacks_Inr_step:
  "callbacks callback ((Inr m, d) # rs) st =
     (case onRecord st m d of
        Inl panic \<Rightarrow> Inl (RuntimePanic panic)
      | Inr st' \<Rightarrow> callbacks callback rs st')"
  by (subst callbacks.simps) (simp add: callback_def split: sum.splits)

lemma callbacks_Inl_step:
  "callbacks callback ((Inl e, d) # rs) st = Inl (LogExit (''Could not decode response: '' @ e))"
  by (subst callbacks.simps) (simp add: callback_def)

lemma callbacks_decoded:
  "callbacks callback (decoded ms) st =
     (case aggregate st ms of Inl panic \<Rightarrow> Inl (RuntimePanic panic) | Inr st' \<Rightarrow> Inr st')"
proof (induction ms arbitrary: st)
  case Nil
  show ?case by (simp add: decoded_def)
next
  case (Cons m ms)
  have "decoded (m # ms) = (Inr (fst m), snd m) # decoded ms" by (simp add: decoded_def)
  then show ?case
    by (simp add: callbacks_Inr_step Cons.IH del: callbacks.simps(2) split: sum.splits)
qed

lemma callbacks_Inr:
  "callbacks callback rs st = Inr st' \<Longrightarrow> \<exists>ms. rs = decoded ms \<and> aggregate st ms = Inr st'"
proof (induction rs arbitrary: st)
  case Nil
  then show ?case by (auto simp: decoded_def intro: exI [of _ "[]"])
next
  case (Cons r rs)
  obtain p d where r: "r = (p, d)" by (cases r)
  show ?case
  proof (cases p)
    case (Inl e)
    with Cons.prems r show ?thesis by (simp only: callbacks_Inl_step) simp
  next
    case (Inr m)
    with Cons.prems r obtain st1 where st1: "onRecord st m d = Inr st1"
      and run: "callbacks callback rs st1 = Inr st'"
      by (simp only: callbacks_Inr_step) (auto split: sum.splits)
    from Cons.IH [OF run] obtain ms where ms: "rs = decoded ms" "aggregate st1 ms = Inr st'"
      by blast
    have "r # rs = decoded ((m, d) # ms)" using r Inr ms(1) by (simp add: decoded_def)
    moreover have "aggregate st ((m, d) # ms) = Inr st'" using ms(2) st1 by simp
    ultimately show ?thesis by blast
  qed
qed

lemma callbacks_Inr_merged:
  "callbacks callback rs st = Inr st' \<Longrightarrow>
   \<exists>ms. rs = decoded ms \<and> list_all aggregable (map fst ms) \<and> st' = merge_all st ms"
proof -
  assume "callbacks callback rs st = Inr st'"
  from callbacks_Inr [OF this] obtain ms where ms: "rs = decoded ms" "aggregate st ms = Inr st'"
    by blast
  from ms(2) have "list_all aggregable (map fst ms) \<and> st' = merge_all st ms"
    unfolding aggregate_eq by (auto split: if_splits)
  with ms(1) show ?thesis by blast
qed

lemma callbacks_malformed:
  "callbacks callback (decoded ms @ (Inl e, d) # rest) st =
     (case aggregate st ms of
        Inl panic \<Rightarrow> Inl (RuntimePanic panic)
      | Inr st' \<Rightarrow> Inl (LogExit (''Could not decode response: '' @ e)))"
proof (induction ms arbitrary: st)
  case Nil
  show ?case by (simp add: decoded_def callbacks_Inl_step del: callbacks.simps(2))
next
  case (Cons m ms)
  have "decoded (m # ms) = (Inr (fst m), snd m) # decoded ms" by (simp add: decoded_def)
  then show ?case
    by (simp add: callbacks_Inr_step Cons.IH del: callbacks.simps(2) split: sum.splits)
qed

lemma split_at_first_malformed:
  "r \<in> set rs \<Longrightarrow> fst r = Inl e \<Longrightarrow>
   \<exists>ms e' d rest. rs = decoded ms @ (Inl e', d) # rest"
proof (induction rs)
  case Nil
  then show ?case by simp
next
  case (Cons x xs)
  obtain p d where x: "x = (p, d)" by (cases x)
  show ?case
  proof (cases p)
    case (Inl e')
    have "x # xs = decoded [] @ (Inl e', d) # xs" using x Inl by (simp add: decoded_def)
    then show ?thesis by blast
  next
    case (Inr m)
    with Cons.prems x have "r \<in> set xs" by auto
    from Cons.IH [OF this Cons.prems(2)] obtain ms e' d' rest
      where "xs = decoded ms @ (Inl e', d') # rest" by blast
    then have "x # xs = decoded ((m, d) # ms) @ (Inl e', d') # rest"
      using x Inr by (simp add: decoded_def)
    then show ?thesis by blast
  qed
qed

subsection \<open>One application of the aggregation step\<close>

text \<open>
  Claim C4. On a record with no nil gateway entry, or with no cluster name, one application
  of \<open>onRecord\<close> to any state completes, adds 1 to \<open>servers\<close> and the connections of
  the record to \<open>connections\<close> (in Go's \<open>int\<close>, 64 bits here, which wraps); when the
  cluster name of the record is not empty, the entry of that cluster exists afterwards with
  one more node name than before (one, if it is new) and no other entry changes; when it is
  empty, no entry changes. On any other record (a cluster name and a nil gateway entry) the
  step panics at line 115 and there is no state afterwards. Three such replies with 5, 20 and
  5 connections in clusters A, B and A give 30 connections and 3 servers, 10 connections and 2
  nodes for A, 20 connections and 1 node for B.
\<close>

theorem onRecord_once:
  "(aggregable ssm \<longrightarrow>
      (\<exists>st'. onRecord st ssm d = Inr st' \<and>
         servers st' = servers st + 1 \<and>
         connections st' = connections st + Connections (Stats ssm) \<and>
         (Cluster (Server ssm) \<noteq> [] \<longrightarrow>
            (\<exists>cl. clusters st' (Cluster (Server ssm)) = Some cl \<and>
                  length (nodes cl) =
                    Suc (case clusters st (Cluster (Server ssm)) of
                           None \<Rightarrow> 0 | Some cl0 \<Rightarrow> length (nodes cl0))) \<and>
            (\<forall>k. k \<noteq> Cluster (Server ssm) \<longrightarrow> clusters st' k = clusters st k)) \<and>
         (Cluster (Server ssm) = [] \<longrightarrow> clusters st' = clusters st))) \<and>
   (\<not> aggregable ssm \<longrightarrow> onRecord st ssm d = Inl NilDereference) \<and>
   (Connections (Stats m1) = 5 \<and> Cluster (Server m1) = ''A'' \<and>
    Connections (Stats m2) = 20 \<and> Cluster (Server m2) = ''B'' \<and>
    Connections (Stats m3) = 5 \<and> Cluster (Server m3) = ''A'' \<and>
    aggregable m1 \<and> aggregable m2 \<and> aggregable m3 \<longrightarrow>
      (\<exists>st3 a b. doReqAsync 0 callback [(Inr m1, d1), (Inr m2, d2), (Inr m3, d3)] init = Inr st3 \<and>
         connections st3 = 30 \<and> servers st3 = 3 \<and>
         clusters st3 ''A'' = Some a \<and> conns a = 10 \<and> length (nodes a) = 2 \<and>
         clusters st3 ''B'' = Some b \<and> conns b = 20 \<and> length (nodes b) = 1))"
proof (intro conjI impI)
  assume ok: "aggregable ssm"
  let ?st' = "recorded st ssm d"
  have run: "onRecord st ssm d = Inr ?st'" using ok by (simp add: onRecord_eq)
  have 1: "servers ?st' = servers st + 1" by (rule recorded_servers)
  have 2: "connections ?st' = connections st + Connections (Stats ssm)"
    by (rule recorded_connections)
  have 3: "\<exists>cl. clusters ?st' (Cluster (Server ssm)) = Some cl \<and>
            length (nodes cl) =
              Suc (case clusters st (Cluster (Server ssm)) of None \<Rightarrow> 0 | Some cl0 \<Rightarrow> length (nodes cl0))"
    if "Cluster (Server ssm) \<noteq> []"
    using that by (simp add: recorded_clusters Let_def new_cluster_def split: option.splits)
  have 4: "\<forall>k. k \<noteq> Cluster (Server ssm) \<longrightarrow> clusters ?st' k = clusters st k"
    by (simp add: recorded_clusters)
  have 5: "clusters ?st' = clusters st" if "Cluster (Server ssm) = []"
    using that by (simp add: fun_eq_iff recorded_clusters)
  show "\<exists>st'. onRecord st ssm d = Inr st' \<and>
         servers st' = servers st + 1 \<and>
         connections st' = connections st + Connections (Stats ssm) \<and>
         (Cluster (Server ssm) \<noteq> [] \<longrightarrow>
            (\<exists>cl. clusters st' (Cluster (Server ssm)) = Some cl \<and>
                  length (nodes cl) =
                    Suc (case clusters st (Cluster (Server ssm)) of
                           None \<Rightarrow> 0 | Some cl0 \<Rightarrow> length (nodes cl0))) \<and>
            (\<forall>k. k \<noteq> Cluster (Server ssm) \<longrightarrow> clusters st' k = clusters st k)) \<and>
         (Cluster (Server ssm) = [] \<longrightarrow> clusters st' = clusters st)"
    using run 1 2 3 4 5 by blast
next
  assume "\<not> aggregable ssm"
  then show "onRecord st ssm d = Inl NilDereference" by (simp add: onRecord_eq)
next
  assume a: "Connections (Stats m1) = 5 \<and> Cluster (Server m1) = ''A'' \<and>
    Connections (Stats m2) = 20 \<and> Cluster (Server m2) = ''B'' \<and>
    Connections (Stats m3) = 5 \<and> Cluster (Server m3) = ''A'' \<and>
    aggregable m1 \<and> aggregable m2 \<and> aggregable m3"
  let ?ms = "[(m1, d1), (m2, d2), (m3, d3)]"
  have agg: "aggregate init ?ms = Inr (merge_all init ?ms)"
    unfolding aggregate_eq using a by simp
  have run: "doReqAsync 0 callback [(Inr m1, d1), (Inr m2, d2), (Inr m3, d3)] init = Inr (merge_all init ?ms)"
    using callbacks_decoded [of ?ms init] agg by (simp add: doReqAsync_def decoded_def)
  have A: "in_cluster ''A'' ?ms = [m1, m3]" and B: "in_cluster ''B'' ?ms = [m2]"
    using a by (simp_all add: in_cluster_def)
  have c: "connections (merge_all init ?ms) = 30" "servers (merge_all init ?ms) = 3"
    using a by (simp_all add: merge_all_connections merge_all_servers init_def)
  have ca: "\<exists>x. clusters (merge_all init ?ms) ''A'' = Some x \<and> conns x = 10 \<and> length (nodes x) = 2"
    unfolding merge_all_clusters A using a by (simp add: init_def new_cluster_def)
  have cb: "\<exists>x. clusters (merge_all init ?ms) ''B'' = Some x \<and> conns x = 20 \<and> length (nodes x) = 1"
    unfolding merge_all_clusters B using a by (simp add: init_def new_cluster_def)
  from run c ca cb
  show "\<exists>st3 a b. doReqAsync 0 callback [(Inr m1, d1), (Inr m2, d2), (Inr m3, d3)] init = Inr st3 \<and>
         connections st3 = 30 \<and> servers st3 = 3 \<and>
         clusters st3 ''A'' = Some a \<and> conns a = 10 \<and> length (nodes a) = 2 \<and>
         clusters st3 ''B'' = Some b \<and> conns b = 20 \<and> length (nodes b) = 1"
    by blast
qed

theorem onRecord_once_witness:
  "aggregable (msg ''n1'' ''A'' 5 0) \<and>
   (\<exists>st'. onRecord init (msg ''n1'' ''A'' 5 0) 1 = Inr st' \<and>
      servers st' = 1 \<and> connections st' = 5 \<and>
      map_option nodes (clusters st' ''A'') = Some [''n1'']) \<and>
   \<not> aggregable ((msg ''n1'' ''A'' 5 0)\<lparr>Stats := (Stats (msg ''n1'' ''A'' 5 0))\<lparr>Gateways := [None]\<rparr>\<rparr>) \<and>
   onRecord init ((msg ''n1'' ''A'' 5 0)\<lparr>Stats := (Stats (msg ''n1'' ''A'' 5 0))\<lparr>Gateways := [None]\<rparr>\<rparr>) 1 =
     Inl NilDereference \<and>
   (\<exists>st3. doReqAsync 0 callback
            [(Inr (msg ''n1'' ''A'' 5 0), 1), (Inr (msg ''n2'' ''B'' 20 0), 2), (Inr (msg ''n3'' ''A'' 5 0), 3)]
            init = Inr st3 \<and>
      connections st3 = 30 \<and> servers st3 = 3 \<and>
      map_option (\<lambda>cl. (conns cl, nodes cl)) (clusters st3 ''A'') = Some (10, [''n1'', ''n3'']) \<and>
      map_option (\<lambda>cl. (conns cl, nodes cl)) (clusters st3 ''B'') = Some (20, [''n2'']))"
proof -
  let ?nil = "(msg ''n1'' ''A'' 5 0)\<lparr>Stats := (Stats (msg ''n1'' ''A'' 5 0))\<lparr>Gateways := [None]\<rparr>\<rparr>"
  have ok: "aggregable (msg ''n1'' ''A'' 5 0)" "aggregable (msg ''n2'' ''B'' 20 0)"
    "aggregable (msg ''n3'' ''A'' 5 0)"
    by (simp_all add: aggregable_def msg_def)
  have no: "\<not> aggregable ?nil" by (simp add: aggregable_def msg_def)
  note t = onRecord_once [where ssm = "msg ''n1'' ''A'' 5 0" and st = init and d = 1
      and ?m1.0 = "msg ''n1'' ''A'' 5 0" and ?m2.0 = "msg ''n2'' ''B'' 20 0"
      and ?m3.0 = "msg ''n3'' ''A'' 5 0" and ?d1.0 = 1 and ?d2.0 = 2 and ?d3.0 = 3]
  note u = onRecord_once [where ssm = ?nil and st = init and d = 1]
  have panic: "onRecord init ?nil 1 = Inl NilDereference"
    using u no by blast
  have e: "\<exists>st'. onRecord init (msg ''n1'' ''A'' 5 0) 1 = Inr st' \<and>
      servers st' = 1 \<and> connections st' = 5 \<and>
      map_option nodes (clusters st' ''A'') = Some [''n1'']"
    by (simp add: onRecord_def init_def Let_def msg_def)
  have s: "\<exists>st3. doReqAsync 0 callback
            [(Inr (msg ''n1'' ''A'' 5 0), 1), (Inr (msg ''n2'' ''B'' 20 0), 2), (Inr (msg ''n3'' ''A'' 5 0), 3)]
            init = Inr st3 \<and>
      connections st3 = 30 \<and> servers st3 = 3 \<and>
      map_option (\<lambda>cl. (conns cl, nodes cl)) (clusters st3 ''A'') = Some (10, [''n1'', ''n3'']) \<and>
      map_option (\<lambda>cl. (conns cl, nodes cl)) (clusters st3 ''B'') = Some (20, [''n2''])"
    using t ok
    by (simp add: doReqAsync_def callbacks_Inr_step onRecord_def init_def Let_def msg_def
        del: callbacks.simps(2))
  show ?thesis using ok(1) no panic e s by blast
qed

subsection \<open>The order of the records\<close>

lemma sum_list_mset_cong:
  "mset xs = mset ys \<Longrightarrow> sum_list (map f xs) = (sum_list (map f ys) :: 'a :: comm_monoid_add)"
proof -
  assume "mset xs = mset ys"
  then have "mset (map f xs) = mset (map f ys)" by (metis mset_map)
  then show ?thesis by (metis sum_mset_sum_list)
qed

lemma in_cluster_mset_cong:
  "mset ms = mset ms' \<Longrightarrow> mset (in_cluster k ms) = mset (in_cluster k ms')"
  unfolding in_cluster_def by (metis mset_filter mset_map)

lemma filter_length_mset_cong:
  "mset xs = mset ys \<Longrightarrow> length (filter P xs) = length (filter P ys)"
  by (metis mset_filter size_mset)

lemma aggregable_mset_cong:
  "mset ms = mset ms' \<Longrightarrow>
   list_all aggregable (map fst ms) = list_all aggregable (map fst ms')"
proof -
  assume "mset ms = mset ms'"
  then have "set ms = set ms'" by (rule mset_eq_setD)
  then show ?thesis by (simp add: list_all_iff)
qed

lemma merge_all_order_insensitive:
  assumes "mset ms = mset ms'"
  shows "servers (merge_all st ms) = servers (merge_all st ms') \<and>
         connections (merge_all st ms) = connections (merge_all st ms') \<and>
         memory (merge_all st ms) = memory (merge_all st ms') \<and>
         slow (merge_all st ms) = slow (merge_all st ms') \<and>
         subs (merge_all st ms) = subs (merge_all st ms') \<and>
         js (merge_all st ms) = js (merge_all st ms') \<and>
         dom (clusters (merge_all st ms)) = dom (clusters (merge_all st ms')) \<and>
         (\<forall>k a b. clusters (merge_all st ms) k = Some a \<and> clusters (merge_all st ms') k = Some b \<longrightarrow>
            name a = name b \<and> conns a = conns b \<and> gwOut a = gwOut b \<and> gwIn a = gwIn b \<and>
            mset (nodes a) = mset (nodes b) \<and> length (nodes a) = length (nodes b))"
proof -
  have len: "length ms = length ms'" using assms by (metis size_mset)
  have ic: "mset (in_cluster k ms) = mset (in_cluster k ms')" for k
    by (rule in_cluster_mset_cong [OF assms])
  have ice: "in_cluster k ms = [] \<longleftrightarrow> in_cluster k ms' = []" for k
    using ic [of k] by (metis mset_zero_iff)
  have icl: "length (in_cluster k ms) = length (in_cluster k ms')" for k
    using ic [of k] by (metis size_mset)
  have icn: "mset (map (\<lambda>m. Name (Server m)) (in_cluster k ms)) =
             mset (map (\<lambda>m. Name (Server m)) (in_cluster k ms'))" for k
    using ic [of k] by (metis mset_map)
  have g: "servers (merge_all st ms) = servers (merge_all st ms')"
    "connections (merge_all st ms) = connections (merge_all st ms')"
    "memory (merge_all st ms) = memory (merge_all st ms')"
    "slow (merge_all st ms) = slow (merge_all st ms')"
    "subs (merge_all st ms) = subs (merge_all st ms')"
    "js (merge_all st ms) = js (merge_all st ms')"
    by (simp_all add: merge_all_servers merge_all_connections merge_all_memory merge_all_slow
        merge_all_subs merge_all_js len sum_list_mset_cong [OF assms]
        filter_length_mset_cong [OF assms])
  have d: "dom (clusters (merge_all st ms)) = dom (clusters (merge_all st ms'))"
    by (auto simp: merge_all_clusters ice Let_def split: if_splits)
  have c: "name a = name b \<and> conns a = conns b \<and> gwOut a = gwOut b \<and> gwIn a = gwIn b \<and>
           mset (nodes a) = mset (nodes b) \<and> length (nodes a) = length (nodes b)"
    if "clusters (merge_all st ms) k = Some a" "clusters (merge_all st ms') k = Some b" for k a b
    using that ice [of k] icl [of k] icn [of k]
    by (auto simp: merge_all_clusters Let_def sum_list_mset_cong [OF ic] split: if_splits)
  show ?thesis using g d c by blast
qed

text \<open>
  Claim C5. Feeding the same records to the aggregation step in any two orders gives the same
  sums and counts: the six global ones, the set of clusters, and for each cluster its name,
  its connection and gateway totals and the number of its nodes (the node names are the same
  as a multiset; each list is in the order of arrival). When one of the records makes the
  step panic, it does so in every order.
\<close>

theorem aggregate_order_insensitive:
  assumes "mset ms = mset ms'"
  shows "(list_all aggregable (map fst ms) \<longrightarrow>
           (\<exists>s s'. aggregate st ms = Inr s \<and> aggregate st ms' = Inr s' \<and>
              servers s = servers s' \<and>
              connections s = connections s' \<and>
              memory s = memory s' \<and>
              slow s = slow s' \<and>
              subs s = subs s' \<and>
              js s = js s' \<and>
              dom (clusters s) = dom (clusters s') \<and>
              (\<forall>k a b. clusters s k = Some a \<and> clusters s' k = Some b \<longrightarrow>
                 name a = name b \<and> conns a = conns b \<and> gwOut a = gwOut b \<and> gwIn a = gwIn b \<and>
                 mset (nodes a) = mset (nodes b) \<and> length (nodes a) = length (nodes b)))) \<and>
         (\<not> list_all aggregable (map fst ms) \<longrightarrow>
            aggregate st ms = Inl NilDereference \<and> aggregate st ms' = Inl NilDereference)"
proof -
  have both: "aggregate st ms = Inl NilDereference \<and> aggregate st ms' = Inl NilDereference"
    if no: "\<not> list_all aggregable (map fst ms)"
  proof -
    from no have "\<not> list_all aggregable (map fst ms')"
      using aggregable_mset_cong [OF assms] by simp
    with no show ?thesis by (simp add: aggregate_eq)
  qed
  have same: "\<exists>s s'. aggregate st ms = Inr s \<and> aggregate st ms' = Inr s' \<and>
              servers s = servers s' \<and>
              connections s = connections s' \<and>
              memory s = memory s' \<and>
              slow s = slow s' \<and>
              subs s = subs s' \<and>
              js s = js s' \<and>
              dom (clusters s) = dom (clusters s') \<and>
              (\<forall>k a b. clusters s k = Some a \<and> clusters s' k = Some b \<longrightarrow>
                 name a = name b \<and> conns a = conns b \<and> gwOut a = gwOut b \<and> gwIn a = gwIn b \<and>
                 mset (nodes a) = mset (nodes b) \<and> length (nodes a) = length (nodes b))"
    if ok: "list_all aggregable (map fst ms)"
  proof -
    from ok have ok': "list_all aggregable (map fst ms')"
      using aggregable_mset_cong [OF assms] by simp
    have "aggregate st ms = Inr (merge_all st ms)" "aggregate st ms' = Inr (merge_all st ms')"
      using ok ok' by (simp_all add: aggregate_eq)
    with merge_all_order_insensitive [OF assms, of st]
    show ?thesis by blast
  qed
  from same both show ?thesis by blast
qed

theorem aggregate_order_insensitive_witness:
  "mset [(msg ''n1'' ''A'' 5 0, 1), (msg ''n2'' ''A'' 20 0, 1 :: Duration)] =
     mset [(msg ''n2'' ''A'' 20 0, 1), (msg ''n1'' ''A'' 5 0, 1)] \<and>
   list_all aggregable (map fst [(msg ''n1'' ''A'' 5 0, 1), (msg ''n2'' ''A'' 20 0, 1 :: Duration)]) \<and>
   (\<exists>s s'. aggregate init [(msg ''n1'' ''A'' 5 0, 1), (msg ''n2'' ''A'' 20 0, 1)] = Inr s \<and>
      aggregate init [(msg ''n2'' ''A'' 20 0, 1), (msg ''n1'' ''A'' 5 0, 1)] = Inr s' \<and>
      connections s = 25 \<and> connections s' = 25 \<and>
      map_option (\<lambda>cl. (conns cl, length (nodes cl))) (clusters s ''A'') = Some (25, 2) \<and>
      map_option (\<lambda>cl. (conns cl, length (nodes cl))) (clusters s' ''A'') = Some (25, 2))"
proof -
  let ?ms = "[(msg ''n1'' ''A'' 5 0, 1), (msg ''n2'' ''A'' 20 0, 1 :: Duration)]"
  let ?ms' = "[(msg ''n2'' ''A'' 20 0, 1), (msg ''n1'' ''A'' 5 0, 1 :: Duration)]"
  have h: "mset ?ms = mset ?ms'" by (simp add: add_mset_commute)
  have ok: "list_all aggregable (map fst ?ms)" by (simp add: aggregable_def msg_def)
  from aggregate_order_insensitive [OF h, of init] ok
  have same: "\<exists>s s'. aggregate init ?ms = Inr s \<and> aggregate init ?ms' = Inr s' \<and>
      connections s = connections s'"
    by blast
  have e: "\<exists>s s'. aggregate init ?ms = Inr s \<and> aggregate init ?ms' = Inr s' \<and>
      connections s = 25 \<and> connections s' = 25 \<and>
      map_option (\<lambda>cl. (conns cl, length (nodes cl))) (clusters s ''A'') = Some (25, 2) \<and>
      map_option (\<lambda>cl. (conns cl, length (nodes cl))) (clusters s' ''A'') = Some (25, 2)"
    by (simp add: onRecord_def init_def Let_def msg_def)
  show ?thesis using h ok same e by blast
qed

section \<open>Runs of the command\<close>

text \<open>\<open>list\<close> once the connection stands, with the table written out.\<close>

lemma list_connected:
  "list cs pdq c None replies =
     (case callbacks callback (delivered c replies) init of
        Inl (LogExit line) \<Rightarrow> Exit line
      | Inl (RuntimePanic panic) \<Rightarrow> Panic panic
      | Inr st \<Rightarrow>
          if results st = [] then Error no_results
          else if json c then JSON (results st)
          else
            let ranked = rank pdq c (results st);
                names = map (\<lambda>ssm. Name (Server ssm)) ranked;
                hosts = map (\<lambda>ssm. Host (Server ssm)) ranked;
                cNames = (if compact_flag c then cs names else names);
                cHosts = (if compact_flag c then cs hosts else hosts)
            in if length cNames < length ranked \<or> length cHosts < length ranked
               then Panic IndexOutOfRange
               else Tables
                 \<lparr>title = ''Server Overview'',
                  headers = [''Name'', ''Cluster'', ''Host'', ''Version'', ''JS'', ''Conns'', ''Subs'',
                      ''Routes'', ''GWs'', ''Mem'', ''CPU %'', ''Cores'', ''Slow'', ''Uptime'', ''RTT''],
                  rows = map (\<lambda>i. Row (server_row (cNames ! i) (cHosts ! i) (ranked ! i))) [0 ..< length ranked]
                         @ [Separator, Row (totals_row st)]\<rparr>
                 (if clusters st \<noteq> Map.empty then Some (clusters st) else None))"
proof -
  have rows_fold: "foldl (\<lambda>t i. AddRow t (f i)) t0 js =
      t0\<lparr>rows := rows t0 @ map (\<lambda>i. Row (f i)) js\<rparr>" for f t0 and js :: "nat list"
    by (induction js arbitrary: t0) (simp_all add: AddRow_def)
  show ?thesis
    unfolding list_def doReqAsync_delivered Let_def rows_fold
    by (simp add: AddRow_def AddSeparator_def AddHeaders_def newTableWriter_def
        no_results_def split: sum.splits fatal.splits)
qed

lemma list_json:
  assumes "json c"
  shows "list cs pdq c None replies =
     (case callbacks callback (delivered c replies) init of
        Inl (LogExit line) \<Rightarrow> Exit line
      | Inl (RuntimePanic panic) \<Rightarrow> Panic panic
      | Inr st \<Rightarrow> if results st = [] then Error no_results else JSON (results st))"
  unfolding list_connected using assms by (simp split: sum.splits fatal.splits)

lemma delivered_Nil: "delivered c replies = [] \<longleftrightarrow> replies = []"
  by (auto simp: delivered_def)

lemma list_Tables:
  assumes "list cs pdq c conn replies = Tables t cl"
  shows "conn = None \<and> \<not> json c \<and>
    (\<exists>st body. doReqAsync (unat (expect c)) callback replies init = Inr st \<and>
       results st \<noteq> [] \<and>
       length body = length (rank pdq c (results st)) \<and>
       headers t = [''Name'', ''Cluster'', ''Host'', ''Version'', ''JS'', ''Conns'', ''Subs'',
                    ''Routes'', ''GWs'', ''Mem'', ''CPU %'', ''Cores'', ''Slow'', ''Uptime'', ''RTT''] \<and>
       rows t = map Row body @ [Separator, Row (totals_row st)])"
proof -
  have conn: "conn = None"
    using assms by (cases conn) (simp_all add: list_def)
  obtain st where st: "callbacks callback (delivered c replies) init = Inr st"
    using assms unfolding conn list_connected by (auto split: sum.splits fatal.splits)
  let ?ranked = "rank pdq c (results st)"
  let ?cNames = "if compact_flag c then cs (map (\<lambda>ssm. Name (Server ssm)) ?ranked)
                 else map (\<lambda>ssm. Name (Server ssm)) ?ranked"
  let ?cHosts = "if compact_flag c then cs (map (\<lambda>ssm. Host (Server ssm)) ?ranked)
                 else map (\<lambda>ssm. Host (Server ssm)) ?ranked"
  let ?body = "map (\<lambda>i. server_row (?cNames ! i) (?cHosts ! i) (?ranked ! i)) [0 ..< length ?ranked]"
  have ne: "results st \<noteq> []" and nj: "\<not> json c"
    using assms unfolding conn list_connected st by (auto split: if_splits)
  have t: "headers t = [''Name'', ''Cluster'', ''Host'', ''Version'', ''JS'', ''Conns'', ''Subs'',
                    ''Routes'', ''GWs'', ''Mem'', ''CPU %'', ''Cores'', ''Slow'', ''Uptime'', ''RTT'']"
      "rows t = map Row ?body @ [Separator, Row (totals_row st)]"
    using assms unfolding conn list_connected st
    by (auto simp: Let_def comp_def split: if_splits)
  have "length ?body = length ?ranked" by simp
  with conn nj st ne t show ?thesis
    unfolding doReqAsync_delivered by blast
qed

lemmas eval_list = list_connected delivered_def callbacks_Inr_step callbacks_Inl_step
  callbacks.simps(1) onRecord_def init_def Let_def cmd_def msg_def res_def rank_eval
  less_fn_def rev_fn_def no_compaction_def word_sless_alt

subsection \<open>No replies\<close>

text \<open>
  Claim C6. With no reply by the end of the collection, \<open>list\<close> returns the error that
  names system privileges and permissions, and prints neither JSON nor a table. It returns this
  error in no other case.
\<close>

theorem list_no_replies:
  "list cs pdq c None [] =
     Error ''no results received, ensure the account used has system privileges and appropriate permissions'' \<and>
   ((list cs pdq c None replies =
     Error ''no results received, ensure the account used has system privileges and appropriate permissions'')
    = (replies = []))"
proof -
  have 1: "list cs pdq c None [] = Error no_results"
    unfolding list_connected by (simp add: delivered_def init_def)
  have 2: "list cs pdq c None replies \<noteq> Error no_results" if "replies \<noteq> []"
  proof (cases "callbacks callback (delivered c replies) init")
    case (Inl f)
    then show ?thesis unfolding list_connected by (cases f) simp_all
  next
    case (Inr st)
    then obtain ms where ms: "delivered c replies = decoded ms" "st = merge_all init ms"
      using callbacks_Inr_merged by blast
    with that have "ms \<noteq> []" using delivered_Nil [of c replies] by (auto simp: decoded_def)
    then have "results st \<noteq> []" using ms(2) by (simp add: merge_all_results)
    then show ?thesis unfolding list_connected Inr by (simp add: Let_def)
  qed
  show ?thesis using 1 2 unfolding no_results_def by blast
qed

subsection \<open>A reply that does not decode\<close>

text \<open>
  Claim C7. When one of the replies handed to the callback does not decode, the run aborts
  and prints neither JSON nor a table. It ends at the first such reply, which is not skipped:
  the line "Could not decode response: ..." is logged and the process exits. The one way
  not to get there is an earlier reply on which the aggregation panicked (a nil gateway
  entry, line 115): the process has then ended with that panic.
\<close>

theorem list_decode_failure:
  assumes "r \<in> set (delivered c replies)" and "fst r = Inl e"
  shows "\<exists>ms e' d rest. delivered c replies = decoded ms @ (Inl e', d) # rest \<and>
           (list_all aggregable (map fst ms) \<longrightarrow>
              list cs pdq c None replies = Exit (''Could not decode response: '' @ e')) \<and>
           (\<not> list_all aggregable (map fst ms) \<longrightarrow>
              list cs pdq c None replies = Panic NilDereference) \<and>
           (\<forall>rs. list cs pdq c None replies \<noteq> JSON rs) \<and>
           (\<forall>t cl. list cs pdq c None replies \<noteq> Tables t cl)"
proof -
  from split_at_first_malformed [OF assms] obtain ms e' d rest
    where s: "delivered c replies = decoded ms @ (Inl e', d) # rest" by blast
  have run: "list cs pdq c None replies =
      (if list_all aggregable (map fst ms) then Exit (''Could not decode response: '' @ e')
       else Panic NilDereference)"
    unfolding list_connected s callbacks_malformed aggregate_eq by simp
  then have "(\<forall>rs. list cs pdq c None replies \<noteq> JSON rs) \<and>
             (\<forall>t cl. list cs pdq c None replies \<noteq> Tables t cl)"
    by simp
  with s run show ?thesis by auto
qed

theorem list_decode_failure_witness:
  "(Inl ''unexpected end of JSON input'', 2) \<in>
     set (delivered (cmd ''name'' False)
            [(Inr (msg ''a'' [] 5 0), 1), (Inl ''unexpected end of JSON input'', 2),
             (Inr (msg ''b'' [] 3 0), 3)]) \<and>
   list no_compaction no_pdq (cmd ''name'' False) None
     [(Inr (msg ''a'' [] 5 0), 1), (Inl ''unexpected end of JSON input'', 2), (Inr (msg ''b'' [] 3 0), 3)] =
     Exit ''Could not decode response: unexpected end of JSON input'' \<and>
   list no_compaction no_pdq (cmd ''name'' False) None
     [(Inr ((msg ''a'' ''A'' 5 0)\<lparr>Stats := (Stats (msg ''a'' ''A'' 5 0))\<lparr>Gateways := [None]\<rparr>\<rparr>), 1),
      (Inl ''unexpected end of JSON input'', 2)] =
     Panic NilDereference"
  using list_decode_failure
    [of "(Inl ''unexpected end of JSON input'', 2)" "cmd ''name'' False"
        "[(Inr (msg ''a'' [] 5 0), 1), (Inl ''unexpected end of JSON input'', 2), (Inr (msg ''b'' [] 3 0), 3)]"
        "''unexpected end of JSON input''" no_compaction no_pdq]
  by (simp add: eval_list del: callbacks.simps(2))

subsection \<open>The row of totals\<close>

text \<open>
  Claim C8, amended. The spec has the row of totals leave the columns name, host, version,
  routes, gateways, CPU, cores and uptime blank. The table ends with a separator and one row
  of totals, after one row per ranked result. Under the headers, that row holds the number
  of clusters in column Cluster, the number of servers in column Host, the number of
  JetStream servers in column JS and the totals of connections, subscriptions, memory and
  slow consumers in their columns; Name, Version, Routes, GWs, CPU %, Cores, Uptime and RTT
  are blank.
\<close>

theorem totals_row_columns:
  assumes "list cs pdq c conn replies = Tables t cl"
  shows "\<exists>st body. doReqAsync (unat (expect c)) callback replies init = Inr st \<and>
           length body = length (rank pdq c (results st)) \<and>
           rows t = map Row body @ [Separator, Row (totals_row st)] \<and>
           zip (headers t) (totals_row st) =
             [(''Name'', Text []),
              (''Cluster'', IntCell (of_nat (card (dom (clusters st))))),
              (''Host'', IntCell (servers st)),
              (''Version'', Text []),
              (''JS'', IntCell (js st)),
              (''Conns'', Comma (connections st)),
              (''Subs'', Comma (ucast (subs st))),
              (''Routes'', Text []),
              (''GWs'', Text []),
              (''Mem'', IBytes (memory st)),
              (''CPU %'', Text []),
              (''Cores'', Text []),
              (''Slow'', Comma (slow st)),
              (''Uptime'', Text []),
              (''RTT'', Text [])]"
proof -
  from list_Tables [OF assms] obtain st body where
    "doReqAsync (unat (expect c)) callback replies init = Inr st"
    "length body = length (rank pdq c (results st))"
    "headers t = [''Name'', ''Cluster'', ''Host'', ''Version'', ''JS'', ''Conns'', ''Subs'',
                    ''Routes'', ''GWs'', ''Mem'', ''CPU %'', ''Cores'', ''Slow'', ''Uptime'', ''RTT'']"
    "rows t = map Row body @ [Separator, Row (totals_row st)]"
    by blast
  then show ?thesis by (auto simp: totals_row_def)
qed

theorem totals_row_columns_witness:
  "\<exists>t cl. list no_compaction no_pdq (cmd ''name'' False) None
            [(Inr (msg ''a'' ''A'' 5 100), 1), (Inr (msg ''b'' [] 7 50), 2)] = Tables t cl \<and>
     length (rows t) = 4 \<and>
     zip (headers t) (case last (rows t) of Row cs \<Rightarrow> cs | Separator \<Rightarrow> []) =
       [(''Name'', Text []), (''Cluster'', IntCell 1), (''Host'', IntCell 2), (''Version'', Text []),
        (''JS'', IntCell 0), (''Conns'', Comma 12), (''Subs'', Comma 0), (''Routes'', Text []),
        (''GWs'', Text []), (''Mem'', IBytes 150), (''CPU %'', Text []), (''Cores'', Text []),
        (''Slow'', Comma 0), (''Uptime'', Text []), (''RTT'', Text [])]"
proof -
  let ?replies = "[(Inr (msg ''a'' ''A'' 5 100), 1), (Inr (msg ''b'' [] 7 50), 2)] :: reply list"
  obtain t cl where run: "list no_compaction no_pdq (cmd ''name'' False) None ?replies = Tables t cl"
    by (simp add: eval_list del: callbacks.simps(2))
  from totals_row_columns [OF run] obtain st body where
    "doReqAsync (unat (expect (cmd ''name'' False))) callback ?replies init = Inr st"
    "rows t = map Row body @ [Separator, Row (totals_row st)]"
    by blast
  from run show ?thesis
    by (auto simp add: eval_list totals_row_def simp del: callbacks.simps(2))
qed

text \<open>One reply: the cell of the last row under the header Host is the server count 1.\<close>

theorem totals_row_counterexample:
  "(case list no_compaction no_pdq (cmd ''name'' False) None [(Inr (msg ''a'' [] 5 100), 1)] of
      Tables t cl \<Rightarrow>
        map_of (zip (headers t) (case last (rows t) of Row cs \<Rightarrow> cs | Separator \<Rightarrow> [])) ''Host''
    | _ \<Rightarrow> None) = Some (IntCell 1)"
  by (simp add: eval_list totals_row_def del: callbacks.simps(2))

subsection \<open>JSON mode\<close>

text \<open>
  Claim C9, amended. The spec has JSON mode emit the ranked sequence when the caller chooses
  so. \<open>list\<close> prints the results and returns before it sorts: with \<open>json\<close> on, no table
  is rendered, the outcome does not depend on the sort key, the reverse flag, the compact
  flag, \<open>compactStrings\<close> or the sort; the sequence printed is that of the decoded replies
  in arrival order; and it is the result list of the same aggregation state whose totals the
  table mode prints.
\<close>

theorem json_mode:
  assumes "json c"
  shows "(\<forall>t cl. list cs pdq c conn replies \<noteq> Tables t cl) \<and>
         list cs pdq c conn replies =
           list cs' pdq' (c\<lparr>sort_flag := k, reverse := r, compact_flag := b\<rparr>) conn replies \<and>
         (\<forall>rs. list cs pdq c conn replies = JSON rs \<longrightarrow>
            (\<exists>ms. delivered c replies = decoded ms \<and>
                  rs = map (\<lambda>m. \<lparr>Server = Server (fst m), Stats = Stats (fst m), rtt = snd m\<rparr>) ms)) \<and>
         (\<forall>t cl. list cs pdq (c\<lparr>json := False\<rparr>) conn replies = Tables t cl \<longrightarrow>
            (\<exists>st. doReqAsync (unat (expect c)) callback replies init = Inr st \<and>
                  last (rows t) = Row (totals_row st) \<and>
                  list cs pdq c conn replies = JSON (results st)))"
proof (intro conjI allI impI)
  fix t cl
  show "list cs pdq c conn replies \<noteq> Tables t cl"
    using list_Tables [of cs pdq c conn replies t cl] assms by blast
next
  have d: "delivered (c\<lparr>sort_flag := k, reverse := r, compact_flag := b\<rparr>) replies = delivered c replies"
    by (simp add: delivered_def)
  show "list cs pdq c conn replies =
           list cs' pdq' (c\<lparr>sort_flag := k, reverse := r, compact_flag := b\<rparr>) conn replies"
  proof (cases conn)
    case None
    show ?thesis
      unfolding None using assms by (simp add: list_json d)
  next
    case (Some e)
    then show ?thesis by (simp add: list_def)
  qed
next
  fix rs
  assume a: "list cs pdq c conn replies = JSON rs"
  have conn: "conn = None" using a by (cases conn) (simp_all add: list_def)
  from a obtain st where st: "callbacks callback (delivered c replies) init = Inr st" and rs: "rs = results st"
    unfolding conn list_json [OF assms] by (auto split: sum.splits if_splits fatal.splits)
  from callbacks_Inr_merged [OF st] obtain ms
    where "delivered c replies = decoded ms" "st = merge_all init ms"
    by blast
  then show "\<exists>ms. delivered c replies = decoded ms \<and>
                  rs = map (\<lambda>m. \<lparr>Server = Server (fst m), Stats = Stats (fst m), rtt = snd m\<rparr>) ms"
    using rs by (auto simp: merge_all_results init_def)
next
  fix t cl
  assume a: "list cs pdq (c\<lparr>json := False\<rparr>) conn replies = Tables t cl"
  from list_Tables [OF a] obtain st body where
    conn: "conn = None"
    and run: "doReqAsync (unat (expect c)) callback replies init = Inr st"
    and ne: "results st \<noteq> []"
    and rows: "rows t = map Row body @ [Separator, Row (totals_row st)]"
    by auto
  have "list cs pdq c conn replies = JSON (results st)"
    unfolding conn list_json [OF assms] using run ne
    by (simp add: doReqAsync_delivered)
  moreover have "last (rows t) = Row (totals_row st)" using rows by simp
  ultimately show "\<exists>st. doReqAsync (unat (expect c)) callback replies init = Inr st \<and>
                  last (rows t) = Row (totals_row st) \<and>
                  list cs pdq c conn replies = JSON (results st)"
    using run by blast
qed

theorem json_mode_witness:
  "json ((cmd ''conns'' True)\<lparr>json := True\<rparr>) \<and>
   list no_compaction no_pdq ((cmd ''conns'' True)\<lparr>json := True\<rparr>) None
     [(Inr (msg ''a'' [] 5 0), 1), (Inr (msg ''b'' [] 3 0), 2)] =
   list no_compaction no_pdq
     ((cmd ''conns'' True)\<lparr>json := True, sort_flag := ''mem'', reverse := False, compact_flag := True\<rparr>) None
     [(Inr (msg ''a'' [] 5 0), 1), (Inr (msg ''b'' [] 3 0), 2)]"
  using json_mode [where c = "(cmd ''conns'' True)\<lparr>json := True\<rparr>" and cs = no_compaction
      and pdq = no_pdq and conn = None
      and replies = "[(Inr (msg ''a'' [] 5 0), 1), (Inr (msg ''b'' [] 3 0), 2)]"
      and cs' = no_compaction and pdq' = no_pdq and k = "''mem''" and r = False and b = True]
  by (simp add: cmd_def)

text \<open>
  Sort by conns with the reverse flag on (ascending), 5 connections before 3 in arrival
  order: JSON mode prints 5 before 3, the ranking would put 3 first.
\<close>

theorem json_mode_counterexample:
  "list no_compaction no_pdq ((cmd ''conns'' True)\<lparr>json := True\<rparr>) None
     [(Inr (msg ''a'' [] 5 0), 1), (Inr (msg ''b'' [] 3 0), 2)] =
     JSON [res (msg ''a'' [] 5 0) 1, res (msg ''b'' [] 3 0) 2] \<and>
   rank no_pdq ((cmd ''conns'' True)\<lparr>json := True\<rparr>) [res (msg ''a'' [] 5 0) 1, res (msg ''b'' [] 3 0) 2] =
     [res (msg ''b'' [] 3 0) 2, res (msg ''a'' [] 5 0) 1]"
  by (simp add: eval_list del: callbacks.simps(2))

subsection \<open>The widths of the totals\<close>

text \<open>
  Claim C10. In a run that prints the table, the subscription total shown in the row of totals
  is the sum of the subscription counts of the results modulo \<open>2 ^ 32\<close> (\<open>subs\<close> is a
  \<open>uint32\<close>, widened to \<open>int64\<close> for printing); the memory and slow consumer totals shown are
  the sums of the signed values wrapped to 64 bits in two's complement.
\<close>

theorem subs_total_32_bit:
  assumes "list cs pdq c conn replies = Tables t cl"
  shows "\<exists>st. doReqAsync (unat (expect c)) callback replies init = Inr st \<and>
           last (rows t) = Row (totals_row st) \<and>
           totals_row st ! 6 = Comma (ucast (subs st)) \<and>
           sint (ucast (subs st) :: int64) =
             int (sum_list (map (\<lambda>r. unat (NumSubs (Stats r))) (results st)) mod 2 ^ 32) \<and>
           totals_row st ! 9 = IBytes (memory st) \<and>
           sint (memory st) = signed_take_bit 63 (sum_list (map (\<lambda>r. sint (Mem (Stats r))) (results st))) \<and>
           totals_row st ! 12 = Comma (slow st) \<and>
           sint (slow st) =
             signed_take_bit 63 (sum_list (map (\<lambda>r. sint (SlowConsumers (Stats r))) (results st)))"
proof -
  from list_Tables [OF assms] obtain st body where
    run: "doReqAsync (unat (expect c)) callback replies init = Inr st"
    and rows: "rows t = map Row body @ [Separator, Row (totals_row st)]"
    by blast
  from run obtain ms where ms: "st = merge_all init ms"
    unfolding doReqAsync_delivered using callbacks_Inr_merged by blast
  have s: "sint (ucast (subs st) :: int64) =
             int (sum_list (map (\<lambda>r. unat (NumSubs (Stats r))) (results st)) mod 2 ^ 32)"
    unfolding sint_ucast_32_64 ms merge_all_subs merge_all_results
    by (simp add: init_def unat_sum_list comp_def)
  have m: "sint (memory st) = signed_take_bit 63 (sum_list (map (\<lambda>r. sint (Mem (Stats r))) (results st)))"
    unfolding ms merge_all_memory merge_all_results
    by (simp add: init_def sint_sum_list comp_def)
  have l: "sint (slow st) =
             signed_take_bit 63 (sum_list (map (\<lambda>r. sint (SlowConsumers (Stats r))) (results st)))"
    unfolding ms merge_all_slow merge_all_results
    by (simp add: init_def sint_sum_list comp_def)
  have "last (rows t) = Row (totals_row st)" using rows by simp
  moreover have "totals_row st ! 6 = Comma (ucast (subs st))"
    "totals_row st ! 9 = IBytes (memory st)" "totals_row st ! 12 = Comma (slow st)"
    by (simp_all add: totals_row_def)
  ultimately show ?thesis using run s m l by blast
qed

theorem subs_total_32_bit_witness:
  "\<exists>t cl. list no_compaction no_pdq (cmd ''name'' False) None
            [(Inr ((msg ''a'' [] 0 0)\<lparr>Stats := (Stats (msg ''a'' [] 0 0))\<lparr>NumSubs := 4294967295\<rparr>\<rparr>), 1),
             (Inr ((msg ''b'' [] 0 0)\<lparr>Stats := (Stats (msg ''b'' [] 0 0))\<lparr>NumSubs := 2\<rparr>\<rparr>), 2)] = Tables t cl \<and>
     (case last (rows t) of Row cs \<Rightarrow> cs ! 6 | Separator \<Rightarrow> Text []) = Comma 1"
proof -
  let ?replies =
    "[(Inr ((msg ''a'' [] 0 0)\<lparr>Stats := (Stats (msg ''a'' [] 0 0))\<lparr>NumSubs := 4294967295\<rparr>\<rparr>), 1),
      (Inr ((msg ''b'' [] 0 0)\<lparr>Stats := (Stats (msg ''b'' [] 0 0))\<lparr>NumSubs := 2\<rparr>\<rparr>), 2)] :: reply list"
  obtain t cl where run: "list no_compaction no_pdq (cmd ''name'' False) None ?replies = Tables t cl"
    by (simp add: eval_list del: callbacks.simps(2))
  from subs_total_32_bit [OF run] obtain st where
    "doReqAsync (unat (expect (cmd ''name'' False))) callback ?replies init = Inr st"
    "last (rows t) = Row (totals_row st)"
    by blast
  from run show ?thesis
    by (auto simp add: eval_list totals_row_def simp del: callbacks.simps(2))
qed

end
